theory Spec2Isabelle
  imports Complex_Main "HOL-Library.Log_Nat" "HOL-Library.Sublist"
begin

section \<open>Frame extraction for COLMAP: \<open>colmapwork/gen_images.py\<close>\<close>

text \<open>
  The script is one function, \<open>main(path, perc_frames, max_frames)\<close>.  It is embedded
  as a function from the command-line arguments, the environment (the libraries the
  script calls: pytubefix, MoviePy, Pillow) and the world (the file system and the
  trace of effects so far) to the world it leaves behind, together with the way the run
  ended: a return or an uncaught exception.
\<close>

subsection \<open>Python values\<close>

text \<open>
  Exceptions.  The built-in classes the script can meet are constructors; an exception
  raised inside a library is \<open>LibraryError\<close> with the name of its class.
\<close>

datatype exn =
    OSError
  | FileNotFoundError
  | NotADirectoryError
  | FileExistsError
  | ZeroDivisionError
  | OverflowError
  | ValueError
  | AttributeError
  | LibraryError string

text \<open>
  A Python \<open>float\<close> is an IEEE 754 binary64 number: a finite value (a rational; the
  two zeros are identified, which no operation used here distinguishes), an infinity
  or a NaN.
\<close>

datatype pyfloat = Fin rat | PInf | NInf | NaN

text \<open>\<open>flog2 a\<close> is \<open>\<lfloor>log\<^sub>2 a\<rfloor>\<close> for a positive rational \<open>a\<close>, computed from the bit lengths of
  numerator and denominator.\<close>

definition flog2 :: "rat \<Rightarrow> int" where
  "flog2 a = (let (p, q) = quotient_of a; e = bitlen p - bitlen q
              in if 2 powi e \<le> a then e else e - 1)"

definition round_half_even :: "rat \<Rightarrow> int" where
  "round_half_even r =
     (let f = \<lfloor>r\<rfloor>; d = r - of_int f
      in if d < 1 / 2 then f
         else if 1 / 2 < d then f + 1
         else if even f then f else f + 1)"

text \<open>
  Rounding of an exact result to binary64, to nearest with ties to even: 53 significant
  bits, least exponent \<open>-1022\<close> (below it the spacing stays \<open>2\<^sup>-\<^sup>1\<^sup>0\<^sup>7\<^sup>4\<close>: subnormal numbers),
  overflow to an infinity when the rounded value reaches \<open>2\<^sup>1\<^sup>0\<^sup>2\<^sup>4\<close>.
\<close>

definition b64_round :: "rat \<Rightarrow> pyfloat" where
  "b64_round q =
     (if q = 0 then Fin 0
      else let a = \<bar>q\<bar>;
               e = max (- 1022) (flog2 a);
               u = 2 powi (e - 52);
               v = of_int (round_half_even (a / u)) * u
           in if 2 ^ 1024 \<le> v then (if 0 < q then PInf else NInf)
              else Fin (sgn q * v))"

text \<open>\<open>float(i)\<close> for a Python \<open>int\<close>: correctly rounded, \<open>OverflowError\<close> when the integer
  is too large for a finite float.\<close>

definition float_of_int :: "int \<Rightarrow> exn + pyfloat" where
  "float_of_int i =
     (case b64_round (of_int i) of Fin q \<Rightarrow> Inr (Fin q) | _ \<Rightarrow> Inl OverflowError)"

text \<open>\<open>a / b\<close> on floats: CPython raises \<open>ZeroDivisionError\<close> when the divisor is zero and
  otherwise performs the IEEE division.\<close>

fun float_div :: "pyfloat \<Rightarrow> pyfloat \<Rightarrow> exn + pyfloat" where
  "float_div a (Fin q) =
     (if q = 0 then Inl ZeroDivisionError
      else case a of
             Fin p \<Rightarrow> Inr (b64_round (p / q))
           | PInf \<Rightarrow> Inr (if 0 < q then PInf else NInf)
           | NInf \<Rightarrow> Inr (if 0 < q then NInf else PInf)
           | NaN \<Rightarrow> Inr NaN)"
| "float_div (Fin p) PInf = Inr (Fin 0)"
| "float_div (Fin p) NInf = Inr (Fin 0)"
| "float_div a b = Inr NaN"

text \<open>\<open>i / x\<close> with an \<open>int\<close> on the left and a \<open>float\<close> on the right (\<open>1 / perc_frames\<close>,
  \<open>fnum / clip.fps\<close>): the integer is converted first.\<close>

definition int_truediv :: "int \<Rightarrow> pyfloat \<Rightarrow> exn + pyfloat" where
  "int_truediv i x = (case float_of_int i of Inl e \<Rightarrow> Inl e | Inr a \<Rightarrow> float_div a x)"

text \<open>\<open>a * b\<close> on floats.\<close>

fun float_mul :: "pyfloat \<Rightarrow> pyfloat \<Rightarrow> pyfloat" where
  "float_mul (Fin p) (Fin q) = b64_round (p * q)"
| "float_mul NaN b = NaN"
| "float_mul a NaN = NaN"
| "float_mul (Fin p) PInf = (if p = 0 then NaN else if 0 < p then PInf else NInf)"
| "float_mul (Fin p) NInf = (if p = 0 then NaN else if 0 < p then NInf else PInf)"
| "float_mul PInf (Fin q) = (if q = 0 then NaN else if 0 < q then PInf else NInf)"
| "float_mul NInf (Fin q) = (if q = 0 then NaN else if 0 < q then NInf else PInf)"
| "float_mul PInf PInf = PInf"
| "float_mul PInf NInf = NInf"
| "float_mul NInf PInf = NInf"
| "float_mul NInf NInf = PInf"

text \<open>\<open>int(x)\<close> on a float truncates towards zero; it raises \<open>OverflowError\<close> on an
  infinity and \<open>ValueError\<close> on a NaN.\<close>

definition trunc_int :: "rat \<Rightarrow> int" where
  "trunc_int q = (if 0 \<le> q then \<lfloor>q\<rfloor> else \<lceil>q\<rceil>)"

fun py_int :: "pyfloat \<Rightarrow> exn + int" where
  "py_int (Fin q) = Inr (trunc_int q)"
| "py_int PInf = Inl OverflowError"
| "py_int NInf = Inl OverflowError"
| "py_int NaN = Inl ValueError"

text \<open>\<open>range(start, stop, step)\<close>: \<open>ValueError\<close> for a zero step, otherwise the values
  \<open>start + i * step\<close> for \<open>i\<close> below the length CPython computes.\<close>

definition range_len :: "int \<Rightarrow> int \<Rightarrow> int \<Rightarrow> nat" where
  "range_len start stop step =
     (if 0 < step then (if start < stop then nat ((stop - start - 1) div step + 1) else 0)
      else (if stop < start then nat ((start - stop - 1) div (- step) + 1) else 0))"

definition py_range :: "int \<Rightarrow> int \<Rightarrow> int \<Rightarrow> exn + int list" where
  "py_range start stop step =
     (if step = 0 then Inl ValueError
      else Inr (map (\<lambda>i. start + int i * step) [0..<range_len start stop step]))"

text \<open>The slice \<open>xs[:stop]\<close>: a negative \<open>stop\<close> counts from the end, and the bound is
  clamped to the length.\<close>

definition slice_stop :: "'a list \<Rightarrow> int \<Rightarrow> 'a list" where
  "slice_stop xs stop =
     (let n = int (length xs);
          k = (if stop < 0 then max 0 (n + stop) else min stop n)
      in take (nat k) xs)"

text \<open>\<open>str(n)\<close> for an \<open>int\<close>, as the f-string \<open>f"{fnum}.jpg"\<close> formats it.\<close>

function str_nat :: "nat \<Rightarrow> string" where
  "str_nat n =
     (if n < 10 then [''0123456789'' ! n]
      else str_nat (n div 10) @ [''0123456789'' ! (n mod 10)])"
  by pat_completeness auto
termination
  by (relation "measure id") auto

declare str_nat.simps [simp del]

definition str_int :: "int \<Rightarrow> string" where
  "str_int i = (if i < 0 then CHR ''-'' # str_nat (nat (- i)) else str_nat (nat i))"

subsection \<open>Paths and the file system\<close>

text \<open>
  A \<open>pathlib\<close> path on POSIX: the anchor (\<open>''/''\<close>, \<open>''//''\<close> or empty for a relative
  path) and the components.  \<open>Path s\<close> splits at the slashes and drops empty and
  \<open>''.''\<close> components, as \<open>pathlib\<close> does.
\<close>

record ppath =
  anchor :: string
  parts :: "string list"

fun split_slash :: "string \<Rightarrow> string list" where
  "split_slash [] = [[]]"
| "split_slash (c # cs) =
     (if c = CHR ''/'' then [] # split_slash cs
      else case split_slash cs of
             [] \<Rightarrow> [[c]]
           | w # ws \<Rightarrow> (c # w) # ws)"

definition Path :: "string \<Rightarrow> ppath" where
  "Path s =
     \<lparr>anchor = (if prefix ''//'' s \<and> \<not> prefix ''///'' s then ''//''
                else if prefix ''/'' s then ''/'' else ''''),
      parts = filter (\<lambda>w. w \<noteq> '''' \<and> w \<noteq> ''.'') (split_slash s)\<rparr>"

fun join_slash :: "string list \<Rightarrow> string" where
  "join_slash [] = ''''"
| "join_slash [w] = w"
| "join_slash (w # ws) = w @ ''/'' @ join_slash ws"

definition str_path :: "ppath \<Rightarrow> string" where
  "str_path p =
     (if parts p = [] then (if anchor p = '''' then ''.'' else anchor p)
      else anchor p @ join_slash (parts p))"

definition parent :: "ppath \<Rightarrow> ppath" where
  "parent p = p\<lparr>parts := butlast (parts p)\<rparr>"

definition name :: "ppath \<Rightarrow> string" where
  "name p = (if parts p = [] then '''' else last (parts p))"

text \<open>\<open>p / s\<close>: an absolute right operand replaces the left one.\<close>

definition joinpath :: "ppath \<Rightarrow> string \<Rightarrow> ppath" where
  "joinpath p s =
     (let r = Path s
      in if anchor r \<noteq> '''' then r else p\<lparr>parts := parts p @ parts r\<rparr>)"

text \<open>\<open>p.with_suffix(suffix)\<close>: the suffix of the last component starts at its last dot,
  unless that dot is its first or its last character; a path with no name raises
  \<open>ValueError\<close>.\<close>

definition stem :: "string \<Rightarrow> string" where
  "stem n =
     (let r = takeWhile (\<lambda>c. c \<noteq> CHR ''.'') (rev n);
          i = length n - length r - 1
      in if length r < length n \<and> 0 < i \<and> r \<noteq> [] then take i n else n)"

definition with_suffix :: "ppath \<Rightarrow> string \<Rightarrow> exn + ppath" where
  "with_suffix p suf =
     (if parts p = [] then Inl ValueError
      else Inr (p\<lparr>parts := butlast (parts p) @ [stem (last (parts p)) @ suf]\<rparr>))"

text \<open>
  The file system maps a path to what is there.  A file written by the script holds the
  image that was saved; any other file is \<open>File None\<close>.
\<close>

type_synonym frame = nat
type_synonym image = nat

datatype node = Dir | File "image option"

type_synonym fs = "ppath \<Rightarrow> node option"

text \<open>\<open>inside d p\<close>: \<open>p\<close> is \<open>d\<close> or lies below it.\<close>

definition inside :: "ppath \<Rightarrow> ppath \<Rightarrow> bool" where
  "inside d p = (anchor p = anchor d \<and> prefix (parts d) (parts p))"

text \<open>\<open>shutil.rmtree(d)\<close> with its default \<open>ignore_errors=False\<close>: it raises when \<open>d\<close> is
  missing or is not a directory, and otherwise removes \<open>d\<close> and everything below it.\<close>

definition rmtree :: "fs \<Rightarrow> ppath \<Rightarrow> exn + fs" where
  "rmtree f d =
     (case f d of
        None \<Rightarrow> Inl FileNotFoundError
      | Some (File c) \<Rightarrow> Inl NotADirectoryError
      | Some Dir \<Rightarrow> Inr (\<lambda>p. if inside d p then None else f p))"

text \<open>\<open>d.mkdir()\<close> with its defaults \<open>parents=False, exist_ok=False\<close>.\<close>

definition mkdir :: "fs \<Rightarrow> ppath \<Rightarrow> exn + fs" where
  "mkdir f d =
     (if f d \<noteq> None then Inl FileExistsError
      else case f (parent d) of
             None \<Rightarrow> Inl FileNotFoundError
           | Some (File c) \<Rightarrow> Inl NotADirectoryError
           | Some Dir \<Rightarrow> Inr (f(d \<mapsto> Dir)))"

subsection \<open>The environment: pytubefix, MoviePy, Pillow\<close>

text \<open>
  The libraries are not part of the script.  Each call the script makes is a field of
  the environment that gives the outcome of the call: a value or an exception.
\<close>

record stream =
  subtype :: string
  resolution :: nat

record clip =
  fps :: pyfloat
  duration :: pyfloat
  get_frame :: "pyfloat \<Rightarrow> exn + frame"

record env =
  YouTube_streams :: "string \<Rightarrow> exn + stream list"
    \<comment> \<open>\<open>YouTube(path, on_progress_callback=on_progress).streams\<close>\<close>
  get_highest_resolution :: "stream list \<Rightarrow> stream option"
    \<comment> \<open>\<open>None\<close> when the query has no progressive stream\<close>
  download :: "stream \<Rightarrow> ppath \<Rightarrow> string \<Rightarrow> fs \<Rightarrow> exn option \<times> fs"
    \<comment> \<open>\<open>stream.download(output_path=..., filename=...)\<close>: the exception, if any, and
        the file system it leaves\<close>
  VideoFileClip :: "string \<Rightarrow> exn + clip"
  fromarray :: "frame \<Rightarrow> exn + image"
  save :: "image \<Rightarrow> string \<Rightarrow> exn option"
    \<comment> \<open>\<open>image.save(filename)\<close>: Pillow chooses the encoder from the suffix of the
        file name, JPEG for \<open>.jpg\<close>\<close>
  str_exception :: "exn \<Rightarrow> string"
    \<comment> \<open>the text of \<open>f"{e}"\<close>\<close>
  stat_error :: "ppath \<Rightarrow> exn option"
    \<comment> \<open>the error, if any, with which \<open>os.stat\<close> fails on the path for a reason other
        than its absence: name too long, permission denied\<close>

text \<open>\<open>p.exists()\<close>: \<open>pathlib\<close> answers \<open>False\<close> when \<open>os.stat\<close> finds nothing at the path, and
  lets every other error of \<open>os.stat\<close> through.\<close>

definition exists :: "env \<Rightarrow> fs \<Rightarrow> ppath \<Rightarrow> exn + bool" where
  "exists env f p = (case stat_error env p of Some e \<Rightarrow> Inl e | None \<Rightarrow> Inr (f p \<noteq> None))"

subsection \<open>Worlds, traces and the ways a block can end\<close>

text \<open>
  The trace lists, in program order, what the script did: what it printed, which library
  and file-system calls it made, and the steps of the plan it computed.
\<close>

datatype event =
    Print string
  | CallYouTube string
  | CallDownload stream
  | CallExists ppath
  | CallVideoFileClip string
  | TotalFrames int
  | CheckPercFrames bool
  | CallRmtree ppath
  | CallMkdir ppath
  | FrameStep int
  | FrameIndices "int list"
  | CallGetFrame pyfloat
  | CallSave image ppath

record world =
  files :: fs
  trace :: "event list"

definition emit :: "event \<Rightarrow> world \<Rightarrow> world" where
  "emit e w = w\<lparr>trace := trace w @ [e]\<rparr>"

text \<open>A block of the script goes on with a value, executes \<open>return\<close>, or raises.\<close>

datatype 'a step = Continue 'a world | Return world | Raise exn world

definition bind :: "'a step \<Rightarrow> ('a \<Rightarrow> world \<Rightarrow> 'b step) \<Rightarrow> 'b step" where
  "bind m f = (case m of Continue x w \<Rightarrow> f x w | Return w \<Rightarrow> Return w | Raise e w \<Rightarrow> Raise e w)"

fun world_of :: "'a step \<Rightarrow> world" where
  "world_of (Continue x w) = w"
| "world_of (Return w) = w"
| "world_of (Raise e w) = w"

subsection \<open>The script\<close>

text \<open>Line 29, \<open>streams.filter(file_extension="mp4")\<close>.\<close>

definition mp4_streams :: "stream list \<Rightarrow> stream list" where
  "mp4_streams streams = filter (\<lambda>s. subtype s = ''mp4'') streams"

text \<open>Lines 25 to 42, the body of the \<open>try\<close>.\<close>

definition download_video :: "env \<Rightarrow> string \<Rightarrow> world \<Rightarrow> ppath step" where
  "download_video env path w =
     (let w1 = emit (Print ''Downloading video from YouTube...'') w;
          w2 = emit (CallYouTube path) w1
      in case YouTube_streams env path of
           Inl e \<Rightarrow> Raise e w2
         | Inr streams \<Rightarrow>
             let video_streams = mp4_streams streams
             in if video_streams = []
                then Return (emit (Print ''Error: No suitable MP4 video stream found.'') w2)
                else case get_highest_resolution env video_streams of
                       None \<Rightarrow> Raise AttributeError w2
                     | Some video_stream \<Rightarrow>
                         let video_path = Path ''downloaded_video'';
                             w3 = emit (CallDownload video_stream) w2;
                             (r, f) = download env video_stream (parent video_path)
                                        (name video_path) (files w3);
                             w4 = w3\<lparr>files := f\<rparr>
                         in case r of
                              Some e \<Rightarrow> Raise e w4
                            | None \<Rightarrow>
                                let w5 = emit (Print (''Downloaded video to ''
                                                       @ str_path video_path)) w4
                                in case with_suffix video_path ''.mp4'' of
                                     Inl e \<Rightarrow> Raise e w5
                                   | Inr p \<Rightarrow> Continue p w5)"

text \<open>Lines 22 to 51: the \<open>except Exception\<close> clause turns a raise of the body into a
  printed message and a return.\<close>

definition resolve_input :: "env \<Rightarrow> string \<Rightarrow> world \<Rightarrow> ppath step" where
  "resolve_input env path w =
     (if prefix ''http://'' path \<or> prefix ''https://'' path
      then case download_video env path w of
             Raise e w' \<Rightarrow>
               Return (emit (Print (''Error downloading video: '' @ str_exception env e)) w')
           | r \<Rightarrow> r
      else let p = Path path;
               w1 = emit (CallExists p) w
           in case exists env (files w1) p of
                Inl e \<Rightarrow> Raise e w1
              | Inr found \<Rightarrow>
                  if \<not> found
                  then Return (emit (Print ''Error: File does not exist.'') w1)
                  else Continue p w1)"

text \<open>Line 55.\<close>

definition total_frames_of :: "clip \<Rightarrow> exn + int" where
  "total_frames_of c = py_int (float_mul (fps c) (duration c))"

text \<open>Lines 54 and 55.\<close>

definition open_clip :: "env \<Rightarrow> ppath \<Rightarrow> world \<Rightarrow> (clip \<times> int) step" where
  "open_clip env p w =
     (let w1 = emit (CallVideoFileClip (str_path p)) w
      in case VideoFileClip env (str_path p) of
           Inl e \<Rightarrow> Raise e w1
         | Inr c \<Rightarrow>
             (case total_frames_of c of
                Inl e \<Rightarrow> Raise e w1
              | Inr total_frames \<Rightarrow> Continue (c, total_frames) (emit (TotalFrames total_frames) w1)))"

text \<open>Lines 58 to 60: \<open>0 < perc_frames <= 1\<close> is false for a NaN.\<close>

fun valid_perc_frames :: "pyfloat \<Rightarrow> bool" where
  "valid_perc_frames (Fin q) = (0 < q \<and> q \<le> 1)"
| "valid_perc_frames x = False"

definition check_perc_frames :: "pyfloat \<Rightarrow> world \<Rightarrow> unit step" where
  "check_perc_frames perc_frames w =
     (let w1 = emit (CheckPercFrames (valid_perc_frames perc_frames)) w
      in if \<not> valid_perc_frames perc_frames
         then Return (emit (Print ''Error: perc_frames must be between 0 and 1.'') w1)
         else Continue () w1)"

text \<open>Lines 63 to 65.\<close>

definition output_dir_of :: "ppath \<Rightarrow> ppath" where
  "output_dir_of p = joinpath (parent p) ''images''"

definition make_output_dir :: "ppath \<Rightarrow> world \<Rightarrow> ppath step" where
  "make_output_dir p w =
     (let output_dir = output_dir_of p;
          w1 = emit (CallRmtree output_dir) w
      in case rmtree (files w1) output_dir of
           Inl e \<Rightarrow> Raise e w1
         | Inr f1 \<Rightarrow>
             let w2 = emit (CallMkdir output_dir) (w1\<lparr>files := f1\<rparr>)
             in case mkdir (files w2) output_dir of
                  Inl e \<Rightarrow> Raise e w2
                | Inr f2 \<Rightarrow> Continue output_dir (w2\<lparr>files := f2\<rparr>))"

text \<open>Line 68.\<close>

definition frame_step :: "pyfloat \<Rightarrow> exn + int" where
  "frame_step perc_frames =
     (case int_truediv 1 perc_frames of
        Inl e \<Rightarrow> Inl e
      | Inr q \<Rightarrow> (case py_int q of Inl e \<Rightarrow> Inl e | Inr n \<Rightarrow> Inr (max 1 n)))"

text \<open>Line 69.\<close>

definition frame_indices :: "int \<Rightarrow> int \<Rightarrow> int \<Rightarrow> exn + int list" where
  "frame_indices total_frames step max_frames =
     (case py_range 0 total_frames step of
        Inl e \<Rightarrow> Inl e
      | Inr r \<Rightarrow> Inr (slice_stop r max_frames))"

text \<open>Lines 68 and 69.\<close>

definition sample_frames :: "int \<Rightarrow> pyfloat \<Rightarrow> int \<Rightarrow> world \<Rightarrow> (int list) step" where
  "sample_frames total_frames perc_frames max_frames w =
     (case frame_step perc_frames of
        Inl e \<Rightarrow> Raise e w
      | Inr step \<Rightarrow>
          let w1 = emit (FrameStep step) w
          in case frame_indices total_frames step max_frames of
               Inl e \<Rightarrow> Raise e w1
             | Inr ixs \<Rightarrow> Continue ixs (emit (FrameIndices ixs) w1))"

text \<open>Lines 74 to 81, the loop.\<close>

fun extract_frames :: "env \<Rightarrow> clip \<Rightarrow> ppath \<Rightarrow> int list \<Rightarrow> world \<Rightarrow> unit step" where
  "extract_frames env c output_dir [] w = Continue () w"
| "extract_frames env c output_dir (fnum # rest) w =
     (case int_truediv fnum (fps c) of
        Inl e \<Rightarrow> Raise e w
      | Inr frame_time \<Rightarrow>
          let w1 = emit (CallGetFrame frame_time) w
          in case get_frame c frame_time of
               Inl e \<Rightarrow> Raise e w1
             | Inr frame_image \<Rightarrow>
                 (case fromarray env frame_image of
                    Inl e \<Rightarrow> Raise e w1
                  | Inr frame_image_pil \<Rightarrow>
                      let target = joinpath output_dir (str_int fnum @ ''.jpg'');
                          w2 = emit (CallSave frame_image_pil target) w1
                      in case save env frame_image_pil (str_path target) of
                           Some e \<Rightarrow> Raise e w2
                         | None \<Rightarrow>
                             extract_frames env c output_dir rest
                               (w2\<lparr>files := (files w2)(target \<mapsto> File (Some frame_image_pil))\<rparr>)))"

text \<open>The function \<open>main\<close>, lines 13 to 83.\<close>

definition main :: "env \<Rightarrow> string \<Rightarrow> pyfloat \<Rightarrow> int \<Rightarrow> world \<Rightarrow> unit step" where
  "main env path perc_frames max_frames w =
     bind (resolve_input env path w) (\<lambda>p w.
     bind (open_clip env p w) (\<lambda>(c, total_frames) w.
     bind (check_perc_frames perc_frames w) (\<lambda>_ w.
     bind (make_output_dir p w) (\<lambda>output_dir w.
     bind (sample_frames total_frames perc_frames max_frames w) (\<lambda>ixs w.
     bind (extract_frames env c output_dir ixs
             (emit (Print (''Extracting frames to '' @ str_path output_dir @ ''...'')) w))
       (\<lambda>_ w.
     Return (emit (Print (''Frame extraction complete. '' @ str_int (int (length ixs))
                          @ '' frames saved in '' @ str_path output_dir @ ''.'')) w)))))))"

subsection \<open>Vocabulary of the specification\<close>

text \<open>The indices the specification describes: every index from 0 up to, and excluding,
  the total, in steps of the stride.\<close>

definition strided_indices :: "int \<Rightarrow> int \<Rightarrow> int list" where
  "strided_indices total_frames stride = filter (\<lambda>i. i mod stride = 0) [0..total_frames - 1]"

text \<open>Events that change the output directory or extract a frame.\<close>

fun is_mutation :: "event \<Rightarrow> bool" where
  "is_mutation (CallRmtree d) = True"
| "is_mutation (CallMkdir d) = True"
| "is_mutation (CallGetFrame t) = True"
| "is_mutation (CallSave i p) = True"
| "is_mutation e = False"

text \<open>The error messages a run printed.\<close>

fun is_error_print :: "event \<Rightarrow> bool" where
  "is_error_print (Print s) = prefix ''Error'' s"
| "is_error_print e = False"

definition reports_error :: "event list \<Rightarrow> bool" where
  "reports_error tr = (tr \<noteq> [] \<and> is_error_print (last tr))"

text \<open>Attempts to fetch: the calls to pytubefix.\<close>

fun is_fetch :: "event \<Rightarrow> bool" where
  "is_fetch (CallYouTube u) = True"
| "is_fetch e = False"

fun is_download :: "event \<Rightarrow> bool" where
  "is_download (CallDownload s) = True"
| "is_download e = False"

fun is_save :: "event \<Rightarrow> bool" where
  "is_save (CallSave i p) = True"
| "is_save e = False"

text \<open>The remote source offers no MP4 stream; the fetch fails: the stream query raises,
  no stream is selected, or the download raises.\<close>

definition no_mp4_stream :: "env \<Rightarrow> string \<Rightarrow> bool" where
  "no_mp4_stream env path =
     (case YouTube_streams env path of Inl e \<Rightarrow> False | Inr streams \<Rightarrow> mp4_streams streams = [])"

definition fetch_fails :: "env \<Rightarrow> string \<Rightarrow> fs \<Rightarrow> bool" where
  "fetch_fails env path f =
     (case YouTube_streams env path of
        Inl e \<Rightarrow> True
      | Inr streams \<Rightarrow>
          (case get_highest_resolution env (mp4_streams streams) of
             None \<Rightarrow> True
           | Some s \<Rightarrow> fst (download env s (Path ''.'') ''downloaded_video'' f) \<noteq> None))"

text \<open>The four stages of the specification, for the events it assigns to one: input
  resolution, parameter validation, frame sampling (the sampling plan: total frame
  count, stride, indices), extraction and write (which includes the output directory).\<close>

fun spec_stage :: "event \<Rightarrow> nat option" where
  "spec_stage (CallYouTube u) = Some 1"
| "spec_stage (CallDownload s) = Some 1"
| "spec_stage (CallExists p) = Some 1"
| "spec_stage (CheckPercFrames b) = Some 2"
| "spec_stage (TotalFrames n) = Some 3"
| "spec_stage (FrameStep n) = Some 3"
| "spec_stage (FrameIndices ixs) = Some 3"
| "spec_stage (CallRmtree d) = Some 4"
| "spec_stage (CallMkdir d) = Some 4"
| "spec_stage (CallGetFrame t) = Some 4"
| "spec_stage (CallSave i p) = Some 4"
| "spec_stage e = None"

definition in_spec_order :: "event list \<Rightarrow> bool" where
  "in_spec_order tr = sorted (List.map_filter spec_stage tr)"

text \<open>The phases in the order of the code: input resolution, opening the video with
  the total frame count, the check of the fraction, the output directory, stride and
  indices, the frames.\<close>

fun code_phase :: "event \<Rightarrow> nat option" where
  "code_phase (CallYouTube u) = Some 1"
| "code_phase (CallDownload s) = Some 1"
| "code_phase (CallExists p) = Some 1"
| "code_phase (CallVideoFileClip s) = Some 2"
| "code_phase (TotalFrames n) = Some 2"
| "code_phase (CheckPercFrames b) = Some 3"
| "code_phase (CallRmtree d) = Some 4"
| "code_phase (CallMkdir d) = Some 4"
| "code_phase (FrameStep n) = Some 5"
| "code_phase (FrameIndices ixs) = Some 5"
| "code_phase (CallGetFrame t) = Some 6"
| "code_phase (CallSave i p) = Some 6"
| "code_phase (Print s) = None"

definition in_code_order :: "event list \<Rightarrow> bool" where
  "in_code_order tr = sorted (List.map_filter code_phase tr)"

text \<open>Events in the order of the code whose phases lie between two bounds.\<close>

definition phases_within :: "nat \<Rightarrow> nat \<Rightarrow> event list \<Rightarrow> bool" where
  "phases_within lo hi es =
     (in_code_order es \<and> list_all (\<lambda>j. lo \<le> j \<and> j \<le> hi) (List.map_filter code_phase es))"

text \<open>What one round of the loop does for the index \<open>fnum\<close> when every call succeeds:
  the image it obtains, the events it adds, and the condition that every call
  succeeds.\<close>

definition frame_image :: "env \<Rightarrow> clip \<Rightarrow> int \<Rightarrow> image option" where
  "frame_image env c fnum =
     (case int_truediv fnum (fps c) of
        Inl e \<Rightarrow> None
      | Inr t \<Rightarrow>
          (case get_frame c t of
             Inl e \<Rightarrow> None
           | Inr fr \<Rightarrow> (case fromarray env fr of Inl e \<Rightarrow> None | Inr img \<Rightarrow> Some img)))"

definition frame_ok :: "env \<Rightarrow> clip \<Rightarrow> ppath \<Rightarrow> int \<Rightarrow> bool" where
  "frame_ok env c output_dir fnum =
     (case frame_image env c fnum of
        None \<Rightarrow> False
      | Some img \<Rightarrow> save env img (str_path (joinpath output_dir (str_int fnum @ ''.jpg''))) = None)"

definition frame_events :: "env \<Rightarrow> clip \<Rightarrow> ppath \<Rightarrow> int \<Rightarrow> event list" where
  "frame_events env c output_dir fnum =
     (case int_truediv fnum (fps c) of
        Inl e \<Rightarrow> []
      | Inr t \<Rightarrow>
          (case frame_image env c fnum of
             None \<Rightarrow> []
           | Some img \<Rightarrow>
               [CallGetFrame t, CallSave img (joinpath output_dir (str_int fnum @ ''.jpg''))]))"

definition frames_written :: "env \<Rightarrow> clip \<Rightarrow> ppath \<Rightarrow> int list \<Rightarrow> fs \<Rightarrow> fs" where
  "frames_written env c output_dir ixs f =
     foldl (\<lambda>g fnum. g(joinpath output_dir (str_int fnum @ ''.jpg'') \<mapsto> File (frame_image env c fnum)))
       f ixs"

subsection \<open>An example run\<close>

text \<open>A ten-second clip at one frame per second, in a directory that holds the images of
  an earlier run; the remote source is unavailable, and a file name of more than 255
  characters is too long for the file system.\<close>

definition demo_clip :: clip where
  "demo_clip = \<lparr>fps = Fin 1, duration = Fin 10, get_frame = (\<lambda>t. Inr 7)\<rparr>"

text \<open>Two clips whose frame rates are the floats nearest to 29.97 and to 23.976.\<close>

definition ntsc_clip :: clip where
  "ntsc_clip = \<lparr>fps = Fin (1054475631502295 / 35184372088832), duration = Fin 100,
                 get_frame = (\<lambda>t. Inr 7)\<rparr>"

definition film_clip :: clip where
  "film_clip = \<lparr>fps = Fin (210895126300459 / 8796093022208), duration = Fin 125,
                 get_frame = (\<lambda>t. Inr 7)\<rparr>"

definition demo_env :: env where
  "demo_env =
     \<lparr>YouTube_streams = (\<lambda>u. Inl (LibraryError ''VideoUnavailable'')),
      get_highest_resolution = (\<lambda>streams. None),
      download = (\<lambda>s d n f. (None, f)),
      VideoFileClip = (\<lambda>s. if s = ''video.mp4'' then Inr demo_clip
                            else Inl (LibraryError ''OSError'')),
      fromarray = (\<lambda>fr. Inr fr),
      save = (\<lambda>img s. None),
      str_exception = (\<lambda>e. ''video unavailable''),
      stat_error = (\<lambda>p. if list_ex (\<lambda>n. 255 < length n) (parts p) then Some OSError
                         else None)\<rparr>"

definition first_run_files :: fs where
  "first_run_files =
     [Path ''.'' \<mapsto> Dir, Path ''video.mp4'' \<mapsto> File None, Path ''notes.txt'' \<mapsto> File None]"

definition demo_files :: fs where
  "demo_files = first_run_files(Path ''images'' \<mapsto> Dir, Path ''images/old.jpg'' \<mapsto> File None)"

text \<open>A file name of 300 characters, no file of the example.\<close>

definition long_name :: string where
  "long_name = replicate 300 (CHR ''a'')"

definition first_run :: world where
  "first_run = \<lparr>files = first_run_files, trace = []\<rparr>"

definition demo_world :: world where
  "demo_world = \<lparr>files = demo_files, trace = []\<rparr>"

section \<open>Properties\<close>

subsection \<open>Rounding to binary64\<close>

text \<open>The exponent \<open>flog2\<close> computes is the floor of the binary logarithm.\<close>

lemma bitlen_powi_bounds:
  assumes "0 < (n::int)"
  shows "(2::rat) powi (bitlen n - 1) \<le> of_int n" and "of_int n < (2::rat) powi bitlen n"
proof -
  have b: "1 \<le> bitlen n" using assms by (simp add: bitlen_alt_def)
  from bitlen_bounds[OF assms] have l: "2 ^ nat (bitlen n - 1) \<le> n" and u: "n < 2 ^ nat (bitlen n)"
    by simp_all
  have "(of_int (2 ^ nat (bitlen n - 1)) :: rat) \<le> of_int n"
    using l by (simp only: of_int_le_iff)
  then show "(2::rat) powi (bitlen n - 1) \<le> of_int n"
    using b by (simp add: power_int_def)
  have "(of_int n :: rat) < of_int (2 ^ nat (bitlen n))"
    using u by (simp only: of_int_less_iff)
  then show "of_int n < (2::rat) powi bitlen n"
    using b by (simp add: power_int_def)
qed

lemma flog2_bounds:
  assumes "0 < a"
  shows "2 powi flog2 a \<le> a" and "a < 2 powi (flog2 a + 1)"
proof -
  obtain p q where pq: "quotient_of a = (p, q)" by force
  have q: "0 < q" using quotient_of_denom_pos[OF pq] .
  have a: "a = of_int p / of_int q" using quotient_of_div[OF pq] .
  have p: "0 < p" using assms q a by (simp add: zero_less_divide_iff)
  define e where "e = bitlen p - bitlen q"
  have f: "flog2 a = (if 2 powi e \<le> a then e else e - 1)"
    by (simp add: flog2_def pq e_def Let_def)
  have qr: "(0::rat) < of_int q" using q by simp
  have up: "a < 2 powi (e + 1)"
  proof -
    have "a * of_int q = of_int p" using a qr by simp
    also have "\<dots> < 2 powi bitlen p" using bitlen_powi_bounds(2)[OF p] .
    also have "\<dots> = 2 powi (e + 1) * 2 powi (bitlen q - 1)"
      by (simp add: e_def flip: power_int_add)
    also have "\<dots> \<le> 2 powi (e + 1) * of_int q"
      using bitlen_powi_bounds(1)[OF q] by (simp add: mult_left_mono)
    finally show ?thesis using qr by simp
  qed
  have lo: "2 powi (e - 1) \<le> a"
  proof -
    have "(2::rat) powi (e - 1) * of_int q \<le> 2 powi (e - 1) * 2 powi bitlen q"
      using bitlen_powi_bounds(2)[OF q] by (simp add: mult_left_mono)
    also have "\<dots> = 2 powi (bitlen p - 1)"
      by (simp add: e_def flip: power_int_add)
    also have "\<dots> \<le> of_int p" using bitlen_powi_bounds(1)[OF p] .
    also have "\<dots> = a * of_int q" using a qr by simp
    finally show ?thesis using qr by simp
  qed
  show "2 powi flog2 a \<le> a" using lo by (simp add: f)
  show "a < 2 powi (flog2 a + 1)" using up by (auto simp add: f)
qed

lemma round_half_even_bounds:
  "of_int (round_half_even r) \<le> r + 1 / 2" "r - 1 / 2 \<le> of_int (round_half_even r)"
  unfolding round_half_even_def Let_def by (auto; linarith)+

lemma round_half_even_mono_int:
  "of_int n \<le> r \<Longrightarrow> n \<le> round_half_even r"
  unfolding round_half_even_def Let_def by (auto simp: le_floor_iff; linarith)

lemma round_half_even_le_int:
  "r \<le> of_int n \<Longrightarrow> round_half_even r \<le> n"
  unfolding round_half_even_def Let_def 
  by (auto simp: floor_le_iff; linarith)

lemma powi_two_less_iff: "(2::rat) powi m < 2 powi n \<longleftrightarrow> m < n"
proof
  assume l: "(2::rat) powi m < 2 powi n"
  show "m < n"
  proof (rule ccontr)
    assume "\<not> m < n"
    then have "n \<le> m" by simp
    then have "(2::rat) powi n \<le> 2 powi m" by (simp only: power_int_increasing one_le_numeral)
    with l show False by simp
  qed
next
  assume "m < n"
  then show "(2::rat) powi m < 2 powi n" by (simp only: power_int_strict_increasing one_less_numeral_iff num.simps semiring_norm)
qed

lemma flog2_eq:
  assumes "0 < a" "2 powi e \<le> a" "a < 2 powi (e + 1)"
  shows "flog2 a = e"
proof -
  have "(2::rat) powi flog2 a < 2 powi (e + 1)"
    using flog2_bounds(1)[OF assms(1)] assms(3) by linarith
  then have "flog2 a < e + 1" by (simp only: powi_two_less_iff)
  moreover have "(2::rat) powi e < 2 powi (flog2 a + 1)"
    using flog2_bounds(2)[OF assms(1)] assms(2) by linarith
  then have "e < flog2 a + 1" by (simp only: powi_two_less_iff)
  ultimately show ?thesis by simp
qed

text \<open>A value rounds to the integer that is less than one half away from it; so the
  rounding of a rational is known once its binade and that integer are.\<close>

lemma round_half_even_near:
  assumes "\<bar>r - of_int m\<bar> < 1 / 2"
  shows "round_half_even r = m"
proof (cases "of_int m \<le> r")
  case True
  then have "\<lfloor>r\<rfloor> = m" using assms by (intro floor_unique) linarith+
  then show ?thesis using assms True by (simp add: round_half_even_def Let_def)
next
  case False
  then have "\<lfloor>r\<rfloor> = m - 1" using assms by (intro floor_unique) (simp, linarith+)
  then show ?thesis using assms False by (simp add: round_half_even_def Let_def)
qed

lemma b64_round_value:
  assumes "0 < a" "2 powi e \<le> a" "a < 2 powi (e + 1)" "- 1022 \<le> e"
    and "\<bar>a / 2 powi (e - 52) - of_int m\<bar> < 1 / 2"
    and "of_int m * 2 powi (e - 52) < (2::rat) powi 1024"
  shows "b64_round a = Fin (of_int m * 2 powi (e - 52))"
proof -
  have f: "flog2 a = e" using assms(1-3) by (rule flog2_eq)
  have m: "round_half_even (a / 2 powi (e - 52)) = m" using assms(5) by (rule round_half_even_near)
  have "\<not> (2::rat) ^ 1024 \<le> of_int m * 2 powi (e - 52)"
    using assms(6) by (simp only: power_int_numeral not_le)
  then show ?thesis
    using assms(1,4) by (simp add: b64_round_def Let_def f m max_absorb2)
qed

lemma powi_small: "(2::rat) powi e < 2 powi 1024" if "e < 1024"
  using that by (simp only: powi_two_less_iff)

lemma b64_round_1: "b64_round 1 = Fin 1"
proof -
  have "b64_round 1 = Fin (of_int (2 ^ 52) * 2 powi (0 - 52))"
  proof (rule b64_round_value)
    show "of_int (2 ^ 52) * 2 powi (0 - 52) < (2::rat) powi 1024"
      using powi_small[of 0] by simp
  qed simp_all
  then show ?thesis by simp
qed

lemma b64_round_2: "b64_round 2 = Fin 2"
proof -
  have "b64_round 2 = Fin (of_int (2 ^ 52) * 2 powi (1 - 52))"
  proof (rule b64_round_value)
    show "of_int (2 ^ 52) * 2 powi (1 - 52) < (2::rat) powi 1024"
      using powi_small[of 1] by simp
  qed simp_all
  then show ?thesis by simp
qed

lemma b64_round_10: "b64_round 10 = Fin 10"
proof -
  have "b64_round 10 = Fin (of_int (10 * 2 ^ 49) * 2 powi (3 - 52))"
  proof (rule b64_round_value)
    show "of_int (10 * 2 ^ 49) * 2 powi (3 - 52) < (2::rat) powi 1024"
      using powi_small[of 4] by simp
  qed simp_all
  then show ?thesis by simp
qed

lemma b64_round_recip_tenth:
  "b64_round (1 / (3602879701896397 / 36028797018963968)) = Fin 10"
proof -
  have "b64_round (36028797018963968 / 3602879701896397) = Fin (of_int (10 * 2 ^ 49) * 2 powi (3 - 52))"
  proof (rule b64_round_value)
    show "of_int (10 * 2 ^ 49) * 2 powi (3 - 52) < (2::rat) powi 1024"
      using powi_small[of 4] by simp
  qed simp_all
  then show ?thesis by simp
qed

text \<open>Rounding overflows from \<open>2\<^sup>1\<^sup>0\<^sup>2\<^sup>4\<close> on, and is finite below \<open>2\<^sup>1\<^sup>0\<^sup>2\<^sup>3\<close>.\<close>

lemma b64_round_pos_cases:
  assumes "0 < a"
  obtains e m where "e = max (- 1022) (flog2 a)" "m = round_half_even (a / 2 powi (e - 52))"
    "b64_round a = (if (2::rat) ^ 1024 \<le> of_int m * 2 powi (e - 52) then PInf else Fin (of_int m * 2 powi (e - 52)))"
  using assms by (simp add: b64_round_def Let_def)

lemma b64_round_overflow:
  assumes "2 powi 1024 \<le> a"
  shows "b64_round a = PInf"
proof -
  have "(0::rat) < 2 powi 1024" by (simp only: zero_less_power_int zero_less_numeral)
  then have a: "0 < a" using assms by linarith
  obtain e m where e: "e = max (- 1022) (flog2 a)" 
    and m: "m = round_half_even (a / 2 powi (e - 52))"
    and r: "b64_round a = (if (2::rat) ^ 1024 \<le> of_int m * 2 powi (e - 52) then PInf else Fin (of_int m * 2 powi (e - 52)))"
    using b64_round_pos_cases[OF a] by blast
  define u :: rat where "u = 2 powi (e - 52)"
  have u: "0 < u" by (simp add: u_def)
  have "(2::rat) powi 1024 < 2 powi (flog2 a + 1)"
    using assms flog2_bounds(2)[OF a] by linarith
  then have "1024 < flog2 a + 1" by (simp only: powi_two_less_iff)
  then have e1024: "1024 \<le> e" and ef: "e = flog2 a" using e by simp_all
  have eu: "2 powi e = of_int (2 ^ 52) * u"
    by (simp add: u_def power_int_diff)
  have "of_int (2 ^ 52) * u \<le> a" using flog2_bounds(1)[OF a] ef eu by simp
  then have "of_int (2 ^ 52) \<le> a / u" using u by (simp add: pos_le_divide_eq)
  then have "2 ^ 52 \<le> m" unfolding m u_def[symmetric] by (rule round_half_even_mono_int)
  then have "(of_int (2 ^ 52) :: rat) \<le> of_int m" by (simp only: of_int_le_iff)
  then have "of_int (2 ^ 52) * u \<le> of_int m * u" using u by (simp only: mult_le_cancel_right_pos)
  then have "2 powi e \<le> of_int m * u" using eu by simp
  moreover have "(2::rat) powi 1024 \<le> 2 powi e" using e1024 by (simp only: power_int_increasing one_le_numeral)
  ultimately have "(2::rat) powi 1024 \<le> of_int m * u" by linarith
  then have "(2::rat) ^ 1024 \<le> of_int m * u" by (simp only: power_int_numeral)
  then show ?thesis using r unfolding u_def by (simp only: if_True)
qed

lemma b64_round_finite:
  assumes "0 \<le> a" "a < 2 powi 1023"
  shows "\<exists>v. b64_round a = Fin v \<and> 0 \<le> v"
proof (cases "a = 0")
  case True
  then show ?thesis by (simp add: b64_round_def)
next
  case False
  then have a: "0 < a" using assms by simp
  obtain e m where e: "e = max (- 1022) (flog2 a)" 
    and m: "m = round_half_even (a / 2 powi (e - 52))"
    and r: "b64_round a = (if (2::rat) ^ 1024 \<le> of_int m * 2 powi (e - 52) then PInf else Fin (of_int m * 2 powi (e - 52)))"
    using b64_round_pos_cases[OF a] by blast
  define u :: rat where "u = 2 powi (e - 52)"
  have u: "0 < u" by (simp add: u_def)
  have "(2::rat) powi flog2 a < 2 powi 1023"
    using assms flog2_bounds(1)[OF a] by linarith
  then have "flog2 a < 1023" by (simp only: powi_two_less_iff)
  then have e1022: "e \<le> 1022" and ef: "flog2 a \<le> e" using e by simp_all
  have eu: "2 powi (e + 1) = of_int (2 ^ 53) * u"
    by (simp add: u_def power_int_diff power_int_add)
  have "(2::rat) powi (flog2 a + 1) \<le> 2 powi (e + 1)"
    using ef by (simp only: power_int_increasing one_le_numeral add_le_cancel_right)
  then have "a \<le> of_int (2 ^ 53) * u" using flog2_bounds(2)[OF a] eu by linarith
  then have "a / u \<le> of_int (2 ^ 53)" using u by (simp add: pos_divide_le_eq)
  then have "m \<le> 2 ^ 53" unfolding m u_def[symmetric] by (rule round_half_even_le_int)
  then have "(of_int m :: rat) \<le> of_int (2 ^ 53)" by (simp only: of_int_le_iff)
  then have "of_int m * u \<le> of_int (2 ^ 53) * u" using u by (simp only: mult_le_cancel_right_pos)
  then have "of_int m * u \<le> 2 powi (e + 1)" using eu by simp
  moreover have "(2::rat) powi (e + 1) \<le> 2 powi 1023" using e1022 by (simp only: power_int_increasing one_le_numeral)
  moreover have "(2::rat) powi 1023 < 2 powi 1024" by (simp only: powi_two_less_iff)
  ultimately have "of_int m * u < (2::rat) powi 1024" by linarith
  then have lt: "\<not> (2::rat) ^ 1024 \<le> of_int m * u" by (simp only: power_int_numeral not_le)
  have "of_int 0 \<le> a / u" using a u by simp
  then have "0 \<le> m" unfolding m u_def[symmetric] by (rule round_half_even_mono_int)
  then have "0 \<le> of_int m * u" using u by simp
  then show ?thesis using r lt unfolding u_def by simp
qed

lemma float_of_int_one: "float_of_int 1 = Inr (Fin 1)"
  by (simp add: float_of_int_def b64_round_1)

lemma max_one_trunc_int: "max 1 (trunc_int q) = max 1 \<lfloor>q\<rfloor>"
  unfolding trunc_int_def by (auto; linarith)

lemma int_truediv_one: "x \<noteq> 0 \<Longrightarrow> int_truediv 1 (Fin x) = Inr (b64_round (1 / x))"
  by (simp add: int_truediv_def float_of_int_one)

text \<open>The exact bound: a non-negative value rounds to a finite float when it is below
  \<open>2\<^sup>1\<^sup>0\<^sup>2\<^sup>4 - 2\<^sup>9\<^sup>7\<^sup>0\<close>, half a spacing under \<open>2\<^sup>1\<^sup>0\<^sup>2\<^sup>4\<close>, and to infinity from there on.  A finite
  rounding is within half a spacing of the exact value: a relative error of at most
  \<open>2\<^sup>-\<^sup>5\<^sup>3\<close>, with an absolute \<open>2\<^sup>-\<^sup>1\<^sup>0\<^sup>7\<^sup>5\<close> in the subnormal range.\<close>

lemma round_half_even_below_half:
  assumes "r < of_int n - 1 / 2"
  shows "round_half_even r \<le> n - 1"
proof -
  have "of_int (round_half_even r) < (of_int n :: rat)"
    using round_half_even_bounds(1)[of r] assms by linarith
  then have "round_half_even r < n" by (simp only: of_int_less_iff)
  then show ?thesis by simp
qed

lemma round_half_even_from_half:
  assumes "of_int n - 1 / 2 \<le> r" and "even n"
  shows "n \<le> round_half_even r"
proof (cases "of_int n \<le> r")
  case True
  then show ?thesis by (rule round_half_even_mono_int)
next
  case False
  then have f: "\<lfloor>r\<rfloor> = n - 1" using assms(1) by (intro floor_unique) (simp, linarith+)
  have o: "odd (n - 1)" using assms(2) by simp
  have "r - of_int (n - 1) < 1 / 2 \<longleftrightarrow> False" using assms(1) by simp
  then show ?thesis using o by (simp add: round_half_even_def Let_def f)
qed

lemma round_half_even_abs: "\<bar>of_int (round_half_even r) - r\<bar> \<le> 1 / 2"
  using round_half_even_bounds[of r] by linarith

lemma powi_two_le_iff: "(2::rat) powi m \<le> 2 powi n \<longleftrightarrow> m \<le> n"
  using powi_two_less_iff[of n m] by (simp add: linorder_not_less[symmetric])

lemma powi_two_split: "(2::rat) powi (e + n) = 2 powi e * 2 powi n"
  by (simp add: power_int_add)

lemma threshold_parts:
  "(2::rat) powi 1024 = of_int (2 ^ 53) * 2 powi 971"
  "(2::rat) powi 970 = (1 / 2) * 2 powi 971"
proof -
  have "(2::rat) powi 1024 = 2 powi (53 + 971)" by simp
  also have "\<dots> = 2 powi 53 * 2 powi 971" by (rule powi_two_split)
  finally show "(2::rat) powi 1024 = of_int (2 ^ 53) * 2 powi 971" by simp
  have "(2::rat) powi 970 = 2 powi (- 1 + 971)" by simp
  also have "\<dots> = 2 powi (- 1) * 2 powi 971" by (rule powi_two_split)
  finally show "(2::rat) powi 970 = (1 / 2) * 2 powi 971" by simp
qed

lemma threshold_ge: "(2::rat) powi 1023 \<le> 2 powi 1024 - 2 powi 970"
proof -
  have "(2::rat) powi 1024 = 2 powi (1 + 1023)" by simp
  also have "\<dots> = 2 powi 1 * 2 powi 1023" by (rule powi_two_split)
  finally have a: "(2::rat) powi 1024 = 2 * 2 powi 1023" by simp
  have "(2::rat) powi 970 \<le> 2 powi 1023" by (simp only: powi_two_le_iff)
  then show ?thesis using a by linarith
qed

lemma b64_round_finite_below:
  assumes "0 \<le> a" and "a < 2 powi 1024 - 2 powi 970"
  shows "\<exists>v. b64_round a = Fin v \<and> 0 \<le> v"
proof (cases "a < 2 powi 1023")
  case True
  then show ?thesis using assms(1) by (intro b64_round_finite)
next
  case False
  then have lo: "2 powi 1023 \<le> a" by simp
  have p: "(0::rat) < 2 powi 1023" by (simp only: zero_less_power_int zero_less_numeral)
  then have a: "0 < a" using lo by linarith
  have p970: "(0::rat) < 2 powi 970" by (simp only: zero_less_power_int zero_less_numeral)
  have hi: "a < 2 powi (1023 + 1)" using assms(2) p970 by simp
  have f: "flog2 a = 1023" using a lo hi by (rule flog2_eq)
  obtain e m where e: "e = max (- 1022) (flog2 a)"
    and m: "m = round_half_even (a / 2 powi (e - 52))"
    and r: "b64_round a = (if (2::rat) ^ 1024 \<le> of_int m * 2 powi (e - 52) then PInf
                           else Fin (of_int m * 2 powi (e - 52)))"
    using b64_round_pos_cases[OF a] by blast
  define u :: rat where "u = 2 powi 971"
  have u: "0 < u" unfolding u_def by (simp only: zero_less_power_int zero_less_numeral)
  have eu: "2 powi (e - 52) = u" using e f by (simp add: u_def)
  have "a < of_int (2 ^ 53) * u - (1 / 2) * u"
    using assms(2) unfolding threshold_parts u_def .
  then have "a < (of_int (2 ^ 53) - 1 / 2) * u" by (simp add: algebra_simps)
  then have "a / u < of_int (2 ^ 53) - 1 / 2" using u by (simp add: pos_divide_less_eq)
  then have "m \<le> 2 ^ 53 - 1" unfolding m eu by (rule round_half_even_below_half)
  then have "(of_int m :: rat) \<le> of_int (2 ^ 53 - 1)" by (simp only: of_int_le_iff)
  then have "of_int m * u \<le> of_int (2 ^ 53 - 1) * u"
    using u by (simp only: mult_le_cancel_right_pos)
  also have "\<dots> = of_int (2 ^ 53) * u - u" by (simp add: algebra_simps)
  also have "\<dots> < of_int (2 ^ 53) * u" using u by simp
  finally have "of_int m * u < 2 powi 1024" by (simp only: threshold_parts(1) u_def)
  then have lt: "\<not> (2::rat) ^ 1024 \<le> of_int m * u" by (simp only: power_int_numeral not_le)
  have "of_int 0 \<le> a / u" using a u by simp
  then have "0 \<le> m" unfolding m eu by (rule round_half_even_mono_int)
  then have "0 \<le> of_int m * u" using u by simp
  then show ?thesis using r lt a unfolding eu by simp
qed

lemma b64_round_overflow_from:
  assumes "2 powi 1024 - 2 powi 970 \<le> a"
  shows "b64_round a = PInf"
proof (cases "2 powi 1024 \<le> a")
  case True
  then show ?thesis by (rule b64_round_overflow)
next
  case False
  then have hi: "a < 2 powi (1023 + 1)" by simp
  have lo: "2 powi 1023 \<le> a" using assms threshold_ge by linarith
  have p: "(0::rat) < 2 powi 1023" by (simp only: zero_less_power_int zero_less_numeral)
  then have a: "0 < a" using lo by linarith
  have f: "flog2 a = 1023" using a lo hi by (rule flog2_eq)
  obtain e m where e: "e = max (- 1022) (flog2 a)"
    and m: "m = round_half_even (a / 2 powi (e - 52))"
    and r: "b64_round a = (if (2::rat) ^ 1024 \<le> of_int m * 2 powi (e - 52) then PInf
                           else Fin (of_int m * 2 powi (e - 52)))"
    using b64_round_pos_cases[OF a] by blast
  define u :: rat where "u = 2 powi 971"
  have u: "0 < u" unfolding u_def by (simp only: zero_less_power_int zero_less_numeral)
  have eu: "2 powi (e - 52) = u" using e f by (simp add: u_def)
  have "of_int (2 ^ 53) * u - (1 / 2) * u \<le> a"
    using assms unfolding threshold_parts u_def .
  then have "(of_int (2 ^ 53) - 1 / 2) * u \<le> a" by (simp add: algebra_simps)
  then have "of_int (2 ^ 53) - 1 / 2 \<le> a / u" using u by (simp add: pos_le_divide_eq)
  then have "2 ^ 53 \<le> m" unfolding m eu by (rule round_half_even_from_half) simp
  then have "(of_int (2 ^ 53) :: rat) \<le> of_int m" by (simp only: of_int_le_iff)
  then have "of_int (2 ^ 53) * u \<le> of_int m * u"
    using u by (simp only: mult_le_cancel_right_pos)
  then have "2 powi 1024 \<le> of_int m * u" by (simp only: threshold_parts(1) u_def)
  then have "(2::rat) ^ 1024 \<le> of_int m * u" by (simp only: power_int_numeral)
  then show ?thesis using r unfolding eu by (simp only: if_True)
qed

lemma b64_round_error:
  assumes "0 \<le> a" and "b64_round a = Fin v"
  shows "\<bar>v - a\<bar> \<le> a * 2 powi (- 53) + 2 powi (- 1075)"
proof (cases "a = 0")
  case True
  then show ?thesis using assms(2) by (simp add: b64_round_def)
next
  case False
  then have a: "0 < a" using assms(1) by simp
  obtain e m where e: "e = max (- 1022) (flog2 a)"
    and m: "m = round_half_even (a / 2 powi (e - 52))"
    and r: "b64_round a = (if (2::rat) ^ 1024 \<le> of_int m * 2 powi (e - 52) then PInf
                           else Fin (of_int m * 2 powi (e - 52)))"
    using b64_round_pos_cases[OF a] by blast
  define u :: rat where "u = 2 powi (e - 52)"
  have u: "0 < u" by (simp add: u_def)
  have v: "v = of_int m * u" using r assms(2) unfolding u_def by (simp split: if_splits)
  have "\<bar>of_int m - a / u\<bar> \<le> 1 / 2"
    unfolding m u_def by (rule round_half_even_abs)
  then have "\<bar>of_int m - a / u\<bar> * u \<le> (1 / 2) * u" using u by (simp only: mult_le_cancel_right_pos)
  moreover have "\<bar>of_int m - a / u\<bar> * u = \<bar>of_int m * u - a\<bar>"
  proof -
    have "(of_int m - a / u) * u = of_int m * u - a" using u by (simp add: field_simps)
    then have "\<bar>of_int m * u - a\<bar> = \<bar>of_int m - a / u\<bar> * \<bar>u\<bar>"
      by (simp only: abs_mult[symmetric])
    then show ?thesis using u by simp
  qed
  ultimately have d: "\<bar>v - a\<bar> \<le> (1 / 2) * u" using v by simp
  have h: "(1 / 2) * u = 2 powi (e - 53)"
  proof -
    have "(2::rat) powi (e - 53) = 2 powi (- 1 + (e - 52))" by simp
    also have "\<dots> = 2 powi (- 1) * 2 powi (e - 52)" by (rule powi_two_split)
    finally show ?thesis by (simp add: u_def)
  qed
  have "(2::rat) powi (e - 53) \<le> a * 2 powi (- 53) + 2 powi (- 1075)"
  proof (cases "- 1022 \<le> flog2 a")
    case True
    then have ef: "e = flog2 a" using e by simp
    have "(2::rat) powi (e - 53) = 2 powi (e + - 53)" by simp
    also have "\<dots> = 2 powi e * 2 powi (- 53)" by (rule powi_two_split)
    also have "\<dots> \<le> a * 2 powi (- 53)"
      using flog2_bounds(1)[OF a] ef by (simp add: mult_right_mono)
    finally have "(2::rat) powi (e - 53) \<le> a * 2 powi (- 53)" .
    moreover have "(0::rat) < 2 powi (- 1075)"
      by (simp only: zero_less_power_int zero_less_numeral)
    ultimately show ?thesis by linarith
  next
    case False
    then have "e = - 1022" using e by simp
    then have "(2::rat) powi (e - 53) = 2 powi (- 1075)" by simp
    moreover have "0 \<le> a * 2 powi (- 53)" using a by simp
    ultimately show ?thesis by linarith
  qed
  then show ?thesis using d h by linarith
qed

lemma b64_round_error_normal:
  assumes "2 powi (- 1022) \<le> a" and "b64_round a = Fin v"
  shows "\<bar>v - a\<bar> \<le> a * 2 powi (- 53)"
proof -
  have p: "(0::rat) < 2 powi (- 1022)" by (simp only: zero_less_power_int zero_less_numeral)
  then have a: "0 < a" using assms(1) by linarith
  obtain e m where e: "e = max (- 1022) (flog2 a)"
    and m: "m = round_half_even (a / 2 powi (e - 52))"
    and r: "b64_round a = (if (2::rat) ^ 1024 \<le> of_int m * 2 powi (e - 52) then PInf
                           else Fin (of_int m * 2 powi (e - 52)))"
    using b64_round_pos_cases[OF a] by blast
  have "(2::rat) powi (- 1022) < 2 powi (flog2 a + 1)"
    using assms(1) flog2_bounds(2)[OF a] by linarith
  then have "- 1022 < flog2 a + 1" by (simp only: powi_two_less_iff)
  then have ef: "e = flog2 a" using e by simp
  define u :: rat where "u = 2 powi (e - 52)"
  have u: "0 < u" by (simp add: u_def)
  have v: "v = of_int m * u" using r assms(2) unfolding u_def by (simp split: if_splits)
  have "\<bar>of_int m - a / u\<bar> \<le> 1 / 2"
    unfolding m u_def by (rule round_half_even_abs)
  then have "\<bar>of_int m - a / u\<bar> * u \<le> (1 / 2) * u" using u by (simp only: mult_le_cancel_right_pos)
  moreover have "\<bar>of_int m - a / u\<bar> * u = \<bar>of_int m * u - a\<bar>"
  proof -
    have "(of_int m - a / u) * u = of_int m * u - a" using u by (simp add: field_simps)
    then have "\<bar>of_int m * u - a\<bar> = \<bar>of_int m - a / u\<bar> * \<bar>u\<bar>"
      by (simp only: abs_mult[symmetric])
    then show ?thesis using u by simp
  qed
  ultimately have d: "\<bar>v - a\<bar> \<le> (1 / 2) * u" using v by simp
  have "(1 / 2) * u = 2 powi (- 53) * 2 powi e"
  proof -
    have "(2::rat) powi (e - 52) = 2 powi (- 52 + e)" by simp
    also have "\<dots> = 2 powi (- 52) * 2 powi e" by (rule powi_two_split)
    finally have "(1 / 2) * u = (1 / 2) * (2 powi (- 52) * 2 powi e)" by (simp add: u_def)
    moreover have "(2::rat) powi (- 53) = 2 powi (- 1 + - 52)" by simp
    then have "(2::rat) powi (- 53) = 2 powi (- 1) * 2 powi (- 52)" by (simp only: powi_two_split)
    ultimately show ?thesis by simp
  qed
  also have "\<dots> \<le> 2 powi (- 53) * a"
    using flog2_bounds(1)[OF a] ef by (simp add: mult_left_mono)
  finally show ?thesis using d by (simp add: mult.commute)
qed

lemma b64_round_ge_one:
  assumes "1 \<le> a" and "b64_round a = Fin v"
  shows "1 \<le> v"
proof -
  have a: "0 < a" using assms(1) by simp
  obtain e m where e: "e = max (- 1022) (flog2 a)"
    and m: "m = round_half_even (a / 2 powi (e - 52))"
    and r: "b64_round a = (if (2::rat) ^ 1024 \<le> of_int m * 2 powi (e - 52) then PInf
                           else Fin (of_int m * 2 powi (e - 52)))"
    using b64_round_pos_cases[OF a] by blast
  have "(2::rat) powi 0 < 2 powi (flog2 a + 1)"
    using assms(1) flog2_bounds(2)[OF a] by simp
  then have "0 < flog2 a + 1" by (simp only: powi_two_less_iff)
  then have ef: "e = flog2 a" and e0: "0 \<le> e" using e by simp_all
  define u :: rat where "u = 2 powi (e - 52)"
  have u: "0 < u" by (simp add: u_def)
  have v: "v = of_int m * u" using r assms(2) unfolding u_def by (simp split: if_splits)
  have eu: "2 powi e = of_int (2 ^ 52) * u"
    by (simp add: u_def power_int_diff)
  have "of_int (2 ^ 52) * u \<le> a" using flog2_bounds(1)[OF a] ef eu by simp
  then have "of_int (2 ^ 52) \<le> a / u" using u by (simp add: pos_le_divide_eq)
  then have "2 ^ 52 \<le> m" unfolding m u_def[symmetric] by (rule round_half_even_mono_int)
  then have "(of_int (2 ^ 52) :: rat) \<le> of_int m" by (simp only: of_int_le_iff)
  then have "of_int (2 ^ 52) * u \<le> of_int m * u" using u by (simp only: mult_le_cancel_right_pos)
  then have "2 powi e \<le> v" using eu v by simp
  moreover have "(2::rat) powi 0 \<le> 2 powi e" using e0 by (simp only: powi_two_le_iff)
  ultimately show ?thesis by simp
qed

subsection \<open>Ranges and slices\<close>

text \<open>For a positive step, \<open>range(0, n, step)\<close> lists the multiples of the step below
  \<open>n\<close>: both lists are strictly increasing and have the same elements.\<close>

lemma range_len_zero_start:
  "0 < step \<Longrightarrow> int (range_len 0 n step) = (if 0 < n then (n - 1) div step + 1 else 0)"
  by (simp add: range_len_def pos_imp_zdiv_nonneg_iff)

lemma strict_sorted_range:
  assumes "0 < step"
  shows "sorted_wrt (<) (map (\<lambda>i. start + int i * step) [0..<k])"
  using assms by (simp add: sorted_wrt_map sorted_wrt_iff_nth_less)

lemma strict_sorted_strided: "sorted_wrt (<) (strided_indices n step)"
  unfolding strided_indices_def by (rule sorted_wrt_filter) simp

lemma set_range_strided:
  assumes "0 < step"
  shows "set (map (\<lambda>i. 0 + int i * step) [0..<range_len 0 n step]) = set (strided_indices n step)"
proof (intro set_eqI iffI)
  fix j
  assume "j \<in> set (map (\<lambda>i. 0 + int i * step) [0..<range_len 0 n step])"
  then obtain i where i: "i < range_len 0 n step" and j: "j = int i * step" by auto
  from i assms have n: "0 < n" by (auto simp: range_len_def split: if_splits)
  from i have "int i < int (range_len 0 n step)" by simp
  then have "int i \<le> (n - 1) div step" using n assms by (simp add: range_len_zero_start)
  then have "int i * step \<le> (n - 1) div step * step" using assms by (simp add: mult_right_mono)
  also have "\<dots> \<le> n - 1" using assms by (metis mult.commute pos_mod_sign div_mult_mod_eq add.commute le_add_same_cancel1 add_0 order.refl add_increasing2)
  finally have "j \<le> n - 1" using j by simp
  moreover have "0 \<le> j" using j assms by simp
  moreover have "j mod step = 0" using j by simp
  ultimately show "j \<in> set (strided_indices n step)" by (simp add: strided_indices_def)
next
  fix j
  assume "j \<in> set (strided_indices n step)"
  then have j: "0 \<le> j" "j \<le> n - 1" "j mod step = 0" by (auto simp: strided_indices_def)
  define i where "i = nat (j div step)"
  have d: "0 \<le> j div step" using j assms by (simp add: pos_imp_zdiv_nonneg_iff)
  have ji: "j = int i * step" using j d by (auto simp: i_def)
  have "j div step \<le> (n - 1) div step" using j assms by (simp add: zdiv_mono1)
  then have "int i < int (range_len 0 n step)" using j assms d by (simp add: range_len_zero_start i_def)
  then have "i < range_len 0 n step" by simp
  then show "j \<in> set (map (\<lambda>i. 0 + int i * step) [0..<range_len 0 n step])"
    using ji by auto
qed

lemma py_range_strided:
  assumes "1 \<le> step"
  shows "py_range 0 n step = Inr (strided_indices n step)"
proof -
  have s: "0 < step" using assms by simp
  have "map (\<lambda>i. 0 + int i * step) [0..<range_len 0 n step] = strided_indices n step"
    using strict_sorted_range[OF s, of 0 "range_len 0 n step"] strict_sorted_strided[of n step]
      set_range_strided[OF s, of n]
    by (intro strict_sorted_equal) simp_all
  then show ?thesis using s by (simp add: py_range_def)
qed

lemma slice_stop_nonneg: "0 \<le> m \<Longrightarrow> slice_stop xs m = take (nat m) xs"
  by (simp add: slice_stop_def Let_def min_def)

lemma slice_stop_neg: "m < 0 \<Longrightarrow> slice_stop xs m = take (nat (int (length xs) + m)) xs"
  by (simp add: slice_stop_def Let_def max_def)

subsection \<open>The frame step\<close>

lemma one_below_threshold: "(1::rat) < 2 powi 1024 - 2 powi 970"
proof -
  have "(2::rat) powi 0 < 2 powi 1023" by (simp only: powi_two_less_iff)
  then show ?thesis using threshold_ge by simp
qed

text \<open>
  Claim C2, as the code has it.  For every fraction of the interval \<open>(0, 1]\<close> whose
  reciprocal is below \<open>2\<^sup>1\<^sup>0\<^sup>2\<^sup>4 - 2\<^sup>9\<^sup>7\<^sup>0\<close>, the frame step is \<open>max(1, \<lfloor>q\<rfloor>)\<close>, where \<open>q\<close> is the
  float quotient \<open>1 / perc_frames\<close>: the reciprocal rounded to binary64, a finite number
  that is at least 1 and differs from the reciprocal by at most \<open>2\<^sup>-\<^sup>5\<^sup>3\<close> of it.
\<close>

theorem frame_step_rounded_quotient:
  assumes "valid_perc_frames (Fin x)" and "1 / x < 2 powi 1024 - 2 powi 970"
  shows "\<exists>q. int_truediv 1 (Fin x) = Inr (Fin q) \<and> b64_round (1 / x) = Fin q
             \<and> \<bar>q - 1 / x\<bar> \<le> (1 / x) * 2 powi (- 53) \<and> 1 \<le> q
             \<and> frame_step (Fin x) = Inr (max 1 \<lfloor>q\<rfloor>)"
proof -
  have x: "0 < x" "x \<le> 1" using assms(1) by simp_all
  then have r: "1 \<le> 1 / x" by simp
  have "0 \<le> 1 / x" using x(1) by simp
  then obtain q where q: "b64_round (1 / x) = Fin q"
    using b64_round_finite_below[OF _ assms(2)] by blast
  have "(2::rat) powi (- 1022) \<le> 2 powi 0" by (simp only: powi_two_le_iff)
  then have "2 powi (- 1022) \<le> 1 / x" using r by simp
  then have e: "\<bar>q - 1 / x\<bar> \<le> (1 / x) * 2 powi (- 53)" using q by (rule b64_round_error_normal)
  have g: "1 \<le> q" using r q by (rule b64_round_ge_one)
  have d: "int_truediv 1 (Fin x) = Inr (Fin q)" using x(1) q by (simp add: int_truediv_one)
  then have "frame_step (Fin x) = Inr (max 1 \<lfloor>q\<rfloor>)"
    by (simp add: frame_step_def max_one_trunc_int)
  then show ?thesis using d q e g by blast
qed

text \<open>The default fraction, the float nearest to one tenth, gives the step 10.\<close>

theorem frame_step_rounded_quotient_witness:
  "valid_perc_frames (Fin (3602879701896397 / 36028797018963968))
   \<and> 1 / (3602879701896397 / 36028797018963968 :: rat) < 2 powi 1024 - 2 powi 970
   \<and> b64_round (1 / (3602879701896397 / 36028797018963968)) = Fin 10
   \<and> frame_step (Fin (3602879701896397 / 36028797018963968)) = Inr 10"
proof -
  have v: "valid_perc_frames (Fin (3602879701896397 / 36028797018963968))" by simp
  have "1 / (3602879701896397 / 36028797018963968 :: rat) < 2 powi 4" by simp
  also have "(2::rat) powi 4 \<le> 2 powi 1023" by (simp only: powi_two_le_iff)
  also have "\<dots> \<le> 2 powi 1024 - 2 powi 970" by (rule threshold_ge)
  finally have t: "1 / (3602879701896397 / 36028797018963968 :: rat) < 2 powi 1024 - 2 powi 970" .
  obtain q where q: "b64_round (1 / (3602879701896397 / 36028797018963968)) = Fin q"
    and s: "frame_step (Fin (3602879701896397 / 36028797018963968)) = Inr (max 1 \<lfloor>q\<rfloor>)"
    using frame_step_rounded_quotient[OF v t] by blast
  have "Fin q = Fin 10" using q b64_round_recip_tenth by (rule trans[OF sym])
  then have "q = 10" by (simp only: pyfloat.inject)
  then have "frame_step (Fin (3602879701896397 / 36028797018963968)) = Inr 10" using s by simp
  then show ?thesis using v t b64_round_recip_tenth by blast
qed

text \<open>The bound on the reciprocal is the exact one: from it on, the quotient is infinite.\<close>

lemma frame_step_overflow_above:
  assumes "valid_perc_frames (Fin x)" and "2 powi 1024 - 2 powi 970 \<le> 1 / x"
  shows "frame_step (Fin x) = Inl OverflowError"
proof -
  have x: "0 < x" using assms(1) by simp
  have "b64_round (1 / x) = PInf" using assms(2) by (rule b64_round_overflow_from)
  then have "int_truediv 1 (Fin x) = Inr PInf" using x by (simp add: int_truediv_one)
  then show ?thesis by (simp add: frame_step_def)
qed

text \<open>
  Claim C2, as stated, fails on the smallest positive float, \<open>2\<^sup>-\<^sup>1\<^sup>0\<^sup>7\<^sup>4\<close> (Python prints it
  as \<open>5e-324\<close>): it passes the check of the fraction, its reciprocal overflows to
  infinity, and \<open>int\<close> raises \<open>OverflowError\<close>, so that no step is computed.
\<close>

theorem frame_step_overflow:
  "valid_perc_frames (Fin (2 powi (- 1074)))
   \<and> frame_step (Fin (2 powi (- 1074))) = Inl OverflowError"
proof -
  define x :: rat where "x = 2 powi (- 1074)"
  have x: "0 < x" unfolding x_def by (simp only: zero_less_power_int zero_less_numeral)
  have "x \<le> 2 powi 0" unfolding x_def by (rule power_int_increasing) simp_all
  then have x1: "x \<le> 1" by simp
  have "1 / x = 2 powi 1074" unfolding x_def by (simp add: power_int_minus field_simps)
  moreover have "(2::rat) powi 1024 \<le> 2 powi 1074" by (rule power_int_increasing) simp_all
  ultimately have "b64_round (1 / x) = PInf" by (simp only: b64_round_overflow)
  then have "int_truediv 1 (Fin x) = Inr PInf" using x by (simp add: int_truediv_one)
  then have "frame_step (Fin x) = Inl OverflowError" by (simp add: frame_step_def)
  then show ?thesis using x x1 unfolding x_def by simp
qed

text \<open>The quotient is the rounded one: for the float nearest to one tenth the step is 10,
  while the floor of the exact reciprocal of that float is 9.\<close>

lemma frame_step_binary_tenth:
  "frame_step (Fin (3602879701896397 / 36028797018963968)) = Inr 10
   \<and> \<lfloor>1 / (3602879701896397 / 36028797018963968 :: rat)\<rfloor> = 9"
proof -
  have "int_truediv 1 (Fin (3602879701896397 / 36028797018963968)) = Inr (Fin 10)"
    using b64_round_recip_tenth by (simp add: int_truediv_one)
  then have "frame_step (Fin (3602879701896397 / 36028797018963968)) = Inr 10"
    by (simp add: frame_step_def trunc_int_def)
  moreover have "\<lfloor>1 / (3602879701896397 / 36028797018963968 :: rat)\<rfloor> = 9"
    by (rule floor_unique) simp_all
  ultimately show ?thesis by simp
qed

lemma frame_step_one: "frame_step (Fin 1) = Inr 1"
  by (simp add: frame_step_def int_truediv_one b64_round_1 trunc_int_def)

subsection \<open>The frame indices\<close>

lemma frame_indices_nonneg:
  assumes "1 \<le> stride" "0 \<le> max_frames"
  shows "frame_indices total_frames stride max_frames
         = Inr (take (nat max_frames) (strided_indices total_frames stride))"
  using assms by (simp add: frame_indices_def py_range_strided slice_stop_nonneg)

lemma strided_10_1: "strided_indices 10 1 = [0, 1, 2, 3, 4, 5, 6, 7, 8, 9]"
  by code_simp

lemma strided_10_2: "strided_indices 10 2 = [0, 2, 4, 6, 8]"
  by code_simp

text \<open>
  Claim C3, as the code has it.  For every total frame count, every stride from 1 on (the
  frame step is never less) and every maximum frame count that is not negative, the
  frame indices are the indices from 0 up to, and excluding, the total in steps of the
  stride, cut after the first \<open>max_frames\<close> of them; with a total of 10, the fraction
  \<open>1.0\<close> and a maximum of 3 they are 0, 1, 2.
\<close>

theorem frame_indices_strided:
  assumes "1 \<le> stride" "0 \<le> max_frames"
  shows "frame_indices total_frames stride max_frames
           = Inr (take (nat max_frames) (strided_indices total_frames stride))
         \<and> frame_step (Fin 1) = Inr 1
         \<and> frame_indices 10 1 3 = Inr [0, 1, 2]"
proof -
  have "frame_indices 10 1 3 = Inr (take (nat 3) (strided_indices 10 1))"
    by (rule frame_indices_nonneg) simp_all
  then have "frame_indices 10 1 3 = Inr [0, 1, 2]" by (simp add: strided_10_1)
  then show ?thesis using frame_indices_nonneg[OF assms] frame_step_one by simp
qed

theorem frame_indices_strided_witness:
  "(1::int) \<le> 2 \<and> (0::int) \<le> 3 \<and> frame_indices 10 2 3 = Inr [0, 2, 4]"
  using frame_indices_strided[of 2 3 10] by (simp add: strided_10_2)

text \<open>
  Claim C3, as stated for every maximum frame count, fails on a negative one: the slice
  \<open>[:-1]\<close> drops the last index and keeps nine of the ten, which is not a cut to at most
  \<open>max_frames\<close> indices.
\<close>

theorem frame_indices_negative_max:
  "frame_indices 10 1 (- 1) = Inr [0, 1, 2, 3, 4, 5, 6, 7, 8]
   \<and> take (nat (- 1)) (strided_indices 10 1) = []"
  by (simp add: frame_indices_def py_range_strided slice_stop_neg strided_10_1)

subsection \<open>Input resolution\<close>

lemma files_emit [simp]: "files (emit e w) = files w"
  by (simp add: emit_def)

lemma trace_emit [simp]: "trace (emit e w) = trace w @ [e]"
  by (simp add: emit_def)

lemma reports_error_snoc [simp]: "reports_error (tr @ [e]) = is_error_print e"
  by (simp add: reports_error_def)

lemma reports_error_append [simp]: "es \<noteq> [] \<Longrightarrow> reports_error (tr @ es) = reports_error es"
  by (simp add: reports_error_def)

lemma reports_error_Cons [simp]:
  "reports_error (e # es) = (if es = [] then is_error_print e else reports_error es)"
  by (simp add: reports_error_def)

lemma Path_downloaded_video:
  "Path ''downloaded_video'' = \<lparr>anchor = '''', parts = [''downloaded_video'']\<rparr>"
  by (simp add: Path_def)

lemma Path_dot: "Path ''.'' = \<lparr>anchor = '''', parts = []\<rparr>"
  by (simp add: Path_def)

lemma Path_images: "Path ''images'' = \<lparr>anchor = '''', parts = [''images'']\<rparr>"
  by (simp add: Path_def)

lemma video_path_parent: "parent (Path ''downloaded_video'') = Path ''.''"
  by (simp add: Path_downloaded_video Path_dot parent_def)

lemma video_path_name: "name (Path ''downloaded_video'') = ''downloaded_video''"
  by (simp add: Path_downloaded_video name_def)

lemma video_path_with_suffix:
  "with_suffix (Path ''downloaded_video'') ''.mp4'' = Inr \<lparr>anchor = '''', parts = [''downloaded_video.mp4'']\<rparr>"
  by (simp add: Path_downloaded_video with_suffix_def stem_def)

lemma split_slash_no_slash: "CHR ''/'' \<notin> set s \<Longrightarrow> split_slash s = [s]"
  by (induction s) auto

lemma Path_single:
  assumes "CHR ''/'' \<notin> set s" "s \<noteq> ''''" "s \<noteq> ''.''"
  shows "Path s = \<lparr>anchor = '''', parts = [s]\<rparr>"
proof -
  have "\<not> prefix ''/'' s" "\<not> prefix ''//'' s" using assms(1) by (cases s; auto)+
  then show ?thesis using assms by (simp add: Path_def split_slash_no_slash)
qed

lemma resolve_input_local:
  assumes "\<not> prefix ''http://'' path" "\<not> prefix ''https://'' path"
  shows "resolve_input env path w =
           (case exists env (files w) (Path path) of
              Inl e \<Rightarrow> Raise e (emit (CallExists (Path path)) w)
            | Inr found \<Rightarrow>
                if found then Continue (Path path) (emit (CallExists (Path path)) w)
                else Return (emit (Print ''Error: File does not exist.'')
                               (emit (CallExists (Path path)) w)))"
  using assms by (simp add: resolve_input_def Let_def split: sum.splits)

lemma exists_cases:
  "exists env f p = (case stat_error env p of Some e \<Rightarrow> Inl e | None \<Rightarrow> Inr (f p \<noteq> None))"
  by (simp add: exists_def)

text \<open>
  Claim C6, as the code has it.  For every input string that is not a URL and names no
  existing path, the file system stays as it was, and nothing is removed, created, decoded
  or saved; and when the existence test meets no error of the operating system, the run
  prints \<open>Error: File does not exist.\<close> and returns.
\<close>

theorem missing_local_file:
  assumes "\<not> prefix ''http://'' path" and "\<not> prefix ''https://'' path"
    and "files w (Path path) = None"
  shows "files (world_of (main env path perc_frames max_frames w)) = files w
         \<and> filter is_mutation (trace (world_of (main env path perc_frames max_frames w)))
             = filter is_mutation (trace w)
         \<and> (stat_error env (Path path) = None \<longrightarrow>
               main env path perc_frames max_frames w
                 = Return (emit (Print ''Error: File does not exist.'')
                             (emit (CallExists (Path path)) w))
               \<and> reports_error (trace (world_of (main env path perc_frames max_frames w))))"
proof (cases "stat_error env (Path path)")
  case None
  then have "exists env (files w) (Path path) = Inr False"
    using assms(3) by (simp add: exists_cases)
  then have "main env path perc_frames max_frames w
          = Return (emit (Print ''Error: File does not exist.'') (emit (CallExists (Path path)) w))"
    using assms(1,2) by (simp add: main_def bind_def resolve_input_local)
  then show ?thesis using None by simp
next
  case (Some e)
  then have "exists env (files w) (Path path) = Inl e" by (simp add: exists_cases)
  then have "main env path perc_frames max_frames w = Raise e (emit (CallExists (Path path)) w)"
    using assms(1,2) by (simp add: main_def bind_def resolve_input_local)
  then show ?thesis using Some by simp
qed

lemma Path_nothere: "Path ''nothere.mp4'' = \<lparr>anchor = '''', parts = [''nothere.mp4'']\<rparr>"
  by (simp add: Path_def)

lemma Path_video: "Path ''video.mp4'' = \<lparr>anchor = '''', parts = [''video.mp4'']\<rparr>"
  by (simp add: Path_def)

lemma Path_notes: "Path ''notes.txt'' = \<lparr>anchor = '''', parts = [''notes.txt'']\<rparr>"
  by (simp add: Path_def)

lemma Path_old: "Path ''images/old.jpg'' = \<lparr>anchor = '''', parts = [''images'', ''old.jpg'']\<rparr>"
  by (simp add: Path_def)

lemmas demo_paths = Path_dot Path_images Path_video Path_notes Path_old Path_nothere

lemma stat_error_demo:
  "stat_error demo_env (Path ''video.mp4'') = None"
  "stat_error demo_env (Path ''notes.txt'') = None"
  "stat_error demo_env (Path ''nothere.mp4'') = None"
  by (simp_all add: demo_env_def demo_paths)

lemma exists_demo:
  "exists demo_env (files demo_world) (Path ''video.mp4'') = Inr True"
  "exists demo_env (files first_run) (Path ''video.mp4'') = Inr True"
  "exists demo_env (files demo_world) (Path ''notes.txt'') = Inr True"
  by (simp_all add: exists_cases stat_error_demo demo_world_def first_run_def demo_files_def
      first_run_files_def)

theorem missing_local_file_witness:
  "\<not> prefix ''http://'' ''nothere.mp4'' \<and> \<not> prefix ''https://'' ''nothere.mp4''
   \<and> files demo_world (Path ''nothere.mp4'') = None
   \<and> stat_error demo_env (Path ''nothere.mp4'') = None
   \<and> main demo_env ''nothere.mp4'' (Fin (1 / 2)) 180 demo_world
       = Return (emit (Print ''Error: File does not exist.'')
                   (emit (CallExists (Path ''nothere.mp4'')) demo_world))
   \<and> files (world_of (main demo_env ''nothere.mp4'' (Fin (1 / 2)) 180 demo_world)) = files demo_world"
proof -
  have a: "\<not> prefix ''http://'' ''nothere.mp4''" by simp
  have b: "\<not> prefix ''https://'' ''nothere.mp4''" by simp
  have c: "files demo_world (Path ''nothere.mp4'') = None"
    by (simp add: demo_world_def demo_files_def first_run_files_def demo_paths)
  show ?thesis
    using missing_local_file[OF a b c, of demo_env "Fin (1 / 2)" 180] a b c
    by (simp add: stat_error_demo)
qed

lemma long_name_chars: "set long_name = {CHR ''a''}" "length long_name = 300"
  by (simp_all add: long_name_def)

lemma long_name_neq: "length s < 300 \<Longrightarrow> long_name \<noteq> s"
proof
  assume "length s < 300" and "long_name = s"
  from this(2) have "length long_name = length s" by (rule arg_cong)
  then show False using \<open>length s < 300\<close> by (simp only: long_name_chars(2) less_irrefl)
qed

lemma Path_long_name: "Path long_name = \<lparr>anchor = '''', parts = [long_name]\<rparr>"
proof (rule Path_single)
  show "CHR ''/'' \<notin> set long_name" by (simp add: long_name_chars)
  show "long_name \<noteq> ''''" "long_name \<noteq> ''.''" by (rule long_name_neq, simp)+
qed

lemma long_name_not_url:
  "\<not> prefix ''http://'' long_name" "\<not> prefix ''https://'' long_name"
proof -
  have h: "CHR ''h'' \<notin> set long_name" by (simp add: long_name_chars)
  show "\<not> prefix ''http://'' long_name"
    using h set_mono_prefix[of "''http://''" long_name] by auto
  show "\<not> prefix ''https://'' long_name"
    using h set_mono_prefix[of "''https://''" long_name] by auto
qed

lemma long_name_no_file: "files demo_world (Path long_name) = None"
  unfolding Path_long_name
  by (simp add: demo_world_def demo_files_def first_run_files_def demo_paths long_name_neq)

lemma long_name_stat_error: "stat_error demo_env (Path long_name) = Some OSError"
  unfolding Path_long_name by (simp add: demo_env_def long_name_chars)

text \<open>
  Claim C6, as stated, fails on a name of 300 characters: it is not a URL and names no
  file, \<open>os.stat\<close> refuses it (\<open>ENAMETOOLONG\<close>), \<open>Path.exists\<close> lets the \<open>OSError\<close>
  through, and the run ends without a printed message.
\<close>

theorem missing_local_file_name_too_long:
  "\<not> prefix ''http://'' long_name \<and> \<not> prefix ''https://'' long_name
   \<and> files demo_world (Path long_name) = None
   \<and> main demo_env long_name (Fin (1 / 2)) 180 demo_world
       = Raise OSError (emit (CallExists (Path long_name)) demo_world)
   \<and> \<not> reports_error (trace (world_of (main demo_env long_name (Fin (1 / 2)) 180 demo_world)))"
proof -
  have e: "exists demo_env (files demo_world) (Path long_name) = Inl OSError"
    by (simp add: exists_cases long_name_stat_error)
  have m: "main demo_env long_name (Fin (1 / 2)) 180 demo_world
             = Raise OSError (emit (CallExists (Path long_name)) demo_world)"
    using e by (simp add: main_def bind_def resolve_input_local[OF long_name_not_url])
  have "\<not> reports_error (trace (world_of (main demo_env long_name (Fin (1 / 2)) 180 demo_world)))"
    unfolding m by (simp add: demo_world_def)
  then show ?thesis using long_name_not_url long_name_no_file m by blast
qed

lemma main_resolve_Return:
  "resolve_input env path w = Return w' \<Longrightarrow> main env path perc_frames max_frames w = Return w'"
  by (simp add: main_def bind_def)

lemma resolve_input_fetch_failure:
  assumes "prefix ''http://'' path \<or> prefix ''https://'' path"
    and "no_mp4_stream env path \<or> fetch_fails env path (files w)"
  shows "\<exists>w' es. resolve_input env path w = Return w' \<and> trace w' = trace w @ es
           \<and> reports_error es \<and> length (filter is_fetch es) = 1
           \<and> length (filter is_download es) \<le> 1 \<and> filter is_mutation es = []"
proof (cases "YouTube_streams env path")
  case (Inl e)
  then show ?thesis using assms(1)
    by (simp add: resolve_input_def download_video_def Let_def)
next
  case (Inr streams)
  show ?thesis
  proof (cases "mp4_streams streams = []")
    case True
    then show ?thesis using assms(1) Inr
      by (simp add: resolve_input_def download_video_def Let_def)
  next
    case False
    then have ff: "fetch_fails env path (files w)"
      using assms(2) Inr by (simp add: no_mp4_stream_def)
    show ?thesis
    proof (cases "get_highest_resolution env (mp4_streams streams)")
      case None
      then show ?thesis using assms(1) Inr False
        by (simp add: resolve_input_def download_video_def Let_def)
    next
      case (Some s)
      obtain r f where d: "download env s (Path ''.'') ''downloaded_video'' (files w) = (r, f)"
        by force
      then obtain e where r: "r = Some e" using ff Inr Some by (auto simp: fetch_fails_def)
      show ?thesis using assms(1) Inr False Some d r
        by (simp add: resolve_input_def download_video_def Let_def video_path_parent video_path_name)
    qed
  qed
qed

text \<open>
  Claim C7.  For every URL, when the remote source has no MP4 stream or the fetch fails
  (the query raises, no stream is selected, or the download raises), the run returns,
  its last action being the print of an error message; it queried the source once and
  started at most one download.
\<close>

theorem fetch_failure_reported:
  assumes "prefix ''http://'' path \<or> prefix ''https://'' path"
    and "no_mp4_stream env path \<or> fetch_fails env path (files w)"
  shows "\<exists>w' es. main env path perc_frames max_frames w = Return w' \<and> trace w' = trace w @ es
           \<and> reports_error es \<and> length (filter is_fetch es) = 1
           \<and> length (filter is_download es) \<le> 1 \<and> filter is_mutation es = []"
  using resolve_input_fetch_failure[OF assms] main_resolve_Return by blast

theorem fetch_failure_reported_witness:
  "(prefix ''http://'' ''https://youtu.be/x'' \<or> prefix ''https://'' ''https://youtu.be/x'')
   \<and> (no_mp4_stream demo_env ''https://youtu.be/x''
        \<or> fetch_fails demo_env ''https://youtu.be/x'' (files demo_world))
   \<and> (\<exists>w' es. main demo_env ''https://youtu.be/x'' (Fin (1 / 2)) 180 demo_world = Return w'
          \<and> trace w' = trace demo_world @ es \<and> reports_error es
          \<and> length (filter is_fetch es) = 1 \<and> length (filter is_download es) \<le> 1
          \<and> filter is_mutation es = [])"
proof -
  have a: "prefix ''http://'' ''https://youtu.be/x'' \<or> prefix ''https://'' ''https://youtu.be/x''"
    by simp
  have b: "no_mp4_stream demo_env ''https://youtu.be/x''
           \<or> fetch_fails demo_env ''https://youtu.be/x'' (files demo_world)"
    by (simp add: fetch_fails_def demo_env_def)
  show ?thesis using fetch_failure_reported[OF a b] a b by blast
qed

subsection \<open>The check of the fraction\<close>

lemma world_of_bind_Return [simp]: "bind (Return w) f = Return w"
  by (simp add: bind_def)

lemma bind_Raise [simp]: "bind (Raise e w) f = Raise e w"
  by (simp add: bind_def)

lemma bind_Continue [simp]: "bind (Continue x w) f = f x w"
  by (simp add: bind_def)

lemma download_video_no_mutation:
  "filter is_mutation (trace (world_of (download_video env path w))) = filter is_mutation (trace w)"
  by (auto simp: download_video_def Let_def split: sum.splits option.splits prod.splits)

lemma resolve_input_no_mutation:
  "filter is_mutation (trace (world_of (resolve_input env path w))) = filter is_mutation (trace w)"
proof (cases "prefix ''http://'' path \<or> prefix ''https://'' path")
  case True
  then show ?thesis
    using download_video_no_mutation[of env path w]
    by (cases "download_video env path w") (simp_all add: resolve_input_def)
next
  case False
  then show ?thesis
    by (simp add: resolve_input_local split: sum.splits)
qed

lemma open_clip_Continue:
  assumes "open_clip env p w = Continue (c, n) w2"
  shows "w2 = emit (TotalFrames n) (emit (CallVideoFileClip (str_path p)) w)"
    and "VideoFileClip env (str_path p) = Inr c" and "total_frames_of c = Inr n"
  using assms by (auto simp: open_clip_def Let_def split: sum.splits)

lemma open_clip_world:
  "files (world_of (open_clip env p w)) = files w"
  "filter is_mutation (trace (world_of (open_clip env p w))) = filter is_mutation (trace w)"
  by (auto simp: open_clip_def Let_def split: sum.splits)

lemma check_perc_frames_invalid:
  "\<not> valid_perc_frames x \<Longrightarrow> check_perc_frames x w
     = Return (emit (Print ''Error: perc_frames must be between 0 and 1.'')
                 (emit (CheckPercFrames False) w))"
  by (simp add: check_perc_frames_def Let_def)

lemma check_perc_frames_valid:
  "valid_perc_frames x \<Longrightarrow> check_perc_frames x w = Continue () (emit (CheckPercFrames True) w)"
  by (simp add: check_perc_frames_def Let_def)

lemma main_invalid:
  assumes "\<not> valid_perc_frames x"
  shows "main env path x m w =
           bind (resolve_input env path w) (\<lambda>p w.
           bind (open_clip env p w) (\<lambda>cn w.
             Return (emit (Print ''Error: perc_frames must be between 0 and 1.'')
                      (emit (CheckPercFrames False) w))))"
  using assms by (simp add: main_def check_perc_frames_invalid split_def)

text \<open>
  Claim C4, as the code has it.  For every fraction outside \<open>(0, 1]\<close>, a NaN included, no
  run removes or creates a directory, or decodes or saves a frame, and the file system
  stays as input resolution left it; and on every run whose input resolves and whose
  video opens, which lines 54 and 55 do before the check, the run prints
  \<open>Error: perc_frames must be between 0 and 1.\<close> and returns.
\<close>

theorem invalid_fraction_rejected:
  assumes "\<not> valid_perc_frames perc_frames"
  shows "filter is_mutation (trace (world_of (main env path perc_frames max_frames w)))
           = filter is_mutation (trace w)
         \<and> files (world_of (main env path perc_frames max_frames w))
             = files (world_of (resolve_input env path w))
         \<and> (\<forall>p w1 c n w2. resolve_input env path w = Continue p w1
               \<longrightarrow> open_clip env p w1 = Continue (c, n) w2
               \<longrightarrow> main env path perc_frames max_frames w
                     = Return (emit (Print ''Error: perc_frames must be between 0 and 1.'')
                                (emit (CheckPercFrames False) w2))
                   \<and> reports_error (trace (world_of (main env path perc_frames max_frames w))))"
proof (cases "resolve_input env path w")
  case (Continue p w1)
  have m1: "filter is_mutation (trace w1) = filter is_mutation (trace w)"
    using resolve_input_no_mutation[of env path w] Continue by simp
  show ?thesis
  proof (cases "open_clip env p w1")
    case c2: (Continue cn w2)
    have "filter is_mutation (trace w2) = filter is_mutation (trace w1)" "files w2 = files w1"
      using open_clip_world[of env p w1] c2 by simp_all
    then show ?thesis using Continue c2 m1 by (simp add: main_invalid[OF assms])
  next
    case (Return w2)
    then show ?thesis using Continue by (auto simp: open_clip_def Let_def split: sum.splits)
  next
    case (Raise e w2)
    have "filter is_mutation (trace w2) = filter is_mutation (trace w1)" "files w2 = files w1"
      using open_clip_world[of env p w1] Raise by simp_all
    then show ?thesis using Continue Raise m1 by (simp add: main_invalid[OF assms])
  qed
next
  case (Return w1)
  then show ?thesis
    using resolve_input_no_mutation[of env path w] by (simp add: main_invalid[OF assms])
next
  case (Raise e w1)
  then show ?thesis
    using resolve_input_no_mutation[of env path w] by (simp add: main_invalid[OF assms])
qed

lemma str_path_video: "str_path (Path ''video.mp4'') = ''video.mp4''"
  by (simp add: str_path_def Path_video)

lemma total_frames_demo: "total_frames_of demo_clip = Inr 10"
  by (simp add: total_frames_of_def demo_clip_def b64_round_10 trunc_int_def)

lemma resolve_input_demo:
  "resolve_input demo_env ''video.mp4'' demo_world
     = Continue (Path ''video.mp4'') (emit (CallExists (Path ''video.mp4'')) demo_world)"
  by (simp add: resolve_input_local exists_demo)

lemma resolve_input_first_run:
  "resolve_input demo_env ''video.mp4'' first_run
     = Continue (Path ''video.mp4'') (emit (CallExists (Path ''video.mp4'')) first_run)"
  by (simp add: resolve_input_local exists_demo)

lemma open_clip_demo:
  "open_clip demo_env (Path ''video.mp4'') w
     = Continue (demo_clip, 10) (emit (TotalFrames 10) (emit (CallVideoFileClip ''video.mp4'') w))"
  by (simp add: open_clip_def Let_def str_path_video demo_env_def total_frames_demo)

theorem invalid_fraction_rejected_witness:
  "\<not> valid_perc_frames (Fin 0) \<and> \<not> valid_perc_frames (Fin (3 / 2))
   \<and> main demo_env ''video.mp4'' (Fin 0) 180 demo_world
       = Return (emit (Print ''Error: perc_frames must be between 0 and 1.'')
                  (emit (CheckPercFrames False)
                    (emit (TotalFrames 10) (emit (CallVideoFileClip ''video.mp4'')
                      (emit (CallExists (Path ''video.mp4'')) demo_world)))))
   \<and> main demo_env ''video.mp4'' (Fin (3 / 2)) 180 demo_world
       = Return (emit (Print ''Error: perc_frames must be between 0 and 1.'')
                  (emit (CheckPercFrames False)
                    (emit (TotalFrames 10) (emit (CallVideoFileClip ''video.mp4'')
                      (emit (CallExists (Path ''video.mp4'')) demo_world)))))
   \<and> files (world_of (main demo_env ''video.mp4'' (Fin 0) 180 demo_world)) = files demo_world"
proof -
  have a: "\<not> valid_perc_frames (Fin 0)" by simp
  have b: "\<not> valid_perc_frames (Fin (3 / 2))" by simp
  show ?thesis
    using invalid_fraction_rejected[OF a, of demo_env "''video.mp4''" 180 demo_world]
      invalid_fraction_rejected[OF b, of demo_env "''video.mp4''" 180 demo_world]
      resolve_input_demo open_clip_demo a b
    by simp
qed

lemma str_path_notes: "str_path (Path ''notes.txt'') = ''notes.txt''"
  by (simp add: str_path_def Path_notes)

lemma resolve_input_notes:
  "resolve_input demo_env ''notes.txt'' demo_world
     = Continue (Path ''notes.txt'') (emit (CallExists (Path ''notes.txt'')) demo_world)"
  by (simp add: resolve_input_local exists_demo)

lemma open_clip_notes:
  "open_clip demo_env (Path ''notes.txt'') w
     = Raise (LibraryError ''OSError'') (emit (CallVideoFileClip ''notes.txt'') w)"
  by (simp add: open_clip_def Let_def str_path_notes demo_env_def)

text \<open>
  Claim C4, as stated, fails on an existing file that is no video, with the fraction
  \<open>1.5\<close>: the video is opened on line 54, before the check of line 58, the
  open raises, and the run ends with nothing printed.
\<close>

theorem invalid_fraction_unopened_video:
  "\<not> valid_perc_frames (Fin (3 / 2))
   \<and> main demo_env ''notes.txt'' (Fin (3 / 2)) 180 demo_world
       = Raise (LibraryError ''OSError'')
           (emit (CallVideoFileClip ''notes.txt'') (emit (CallExists (Path ''notes.txt'')) demo_world))
   \<and> trace (world_of (main demo_env ''notes.txt'' (Fin (3 / 2)) 180 demo_world))
       = [CallExists (Path ''notes.txt''), CallVideoFileClip ''notes.txt'']
   \<and> \<not> reports_error (trace (world_of (main demo_env ''notes.txt'' (Fin (3 / 2)) 180 demo_world)))"
proof -
  have m: "main demo_env ''notes.txt'' (Fin (3 / 2)) 180 demo_world
       = Raise (LibraryError ''OSError'')
           (emit (CallVideoFileClip ''notes.txt'') (emit (CallExists (Path ''notes.txt'')) demo_world))"
    by (simp add: main_def resolve_input_notes open_clip_notes)
  show ?thesis unfolding m by (simp add: demo_world_def)
qed

subsection \<open>The total frame count\<close>

lemma trunc_int_nonneg: "0 \<le> q \<Longrightarrow> trunc_int q = \<lfloor>q\<rfloor>"
  by (simp add: trunc_int_def)

text \<open>
  Claim C8, as the code has it.  For every clip whose frame rate and duration are finite
  and not negative, with a product below \<open>2\<^sup>1\<^sup>0\<^sup>2\<^sup>4 - 2\<^sup>9\<^sup>7\<^sup>0\<close>, the total frame count is \<open>\<lfloor>q\<rfloor>\<close>,
  where \<open>q\<close> is the float product \<open>fps * duration\<close>: the exact product rounded to
  binary64, a finite number that differs from the exact product by at most \<open>2\<^sup>-\<^sup>5\<^sup>3\<close> of it
  (and \<open>2\<^sup>-\<^sup>1\<^sup>0\<^sup>7\<^sup>5\<close> in the subnormal range).
\<close>

theorem total_frames_rounded_product:
  assumes "fps c = Fin f" and "duration c = Fin d" and "0 \<le> f" and "0 \<le> d"
    and "f * d < 2 powi 1024 - 2 powi 970"
  shows "\<exists>q. float_mul (fps c) (duration c) = Fin q \<and> b64_round (f * d) = Fin q
             \<and> \<bar>q - f * d\<bar> \<le> f * d * 2 powi (- 53) + 2 powi (- 1075)
             \<and> 0 \<le> q \<and> total_frames_of c = Inr \<lfloor>q\<rfloor>"
proof -
  have n: "0 \<le> f * d" using assms(3,4) by simp
  obtain q where q: "b64_round (f * d) = Fin q" "0 \<le> q"
    using b64_round_finite_below[OF n assms(5)] by blast
  have e: "\<bar>q - f * d\<bar> \<le> f * d * 2 powi (- 53) + 2 powi (- 1075)"
    using n q(1) by (rule b64_round_error)
  have m: "float_mul (fps c) (duration c) = Fin q" using assms(1,2) q(1) by simp
  have "total_frames_of c = Inr \<lfloor>q\<rfloor>"
    using m q(2) by (simp add: total_frames_of_def trunc_int_nonneg)
  then show ?thesis using m q e by blast
qed

lemma b64_round_2997: "b64_round (26361890787557375 / 8796093022208) = Fin 2997"
proof -
  have "b64_round (26361890787557375 / 8796093022208)
          = Fin (of_int (2997 * 2 ^ 41) * 2 powi (11 - 52))"
  proof (rule b64_round_value)
    show "of_int (2997 * 2 ^ 41) * 2 powi (11 - 52) < (2::rat) powi 1024"
      using powi_small[of 12] by simp
  qed simp_all
  then show ?thesis by simp
qed

lemma film_clip_product:
  "(210895126300459 / 8796093022208 :: rat) * 125 = 26361890787557375 / 8796093022208"
  by simp

lemma ntsc_clip_product:
  "(1054475631502295 / 35184372088832 :: rat) * 100 = 26361890787557375 / 8796093022208"
  by simp

lemma below_overflow: "(26361890787557375 / 8796093022208 :: rat) < 2 powi 1024 - 2 powi 970"
proof -
  have "(26361890787557375 / 8796093022208 :: rat) < 2 powi 12" by simp
  also have "(2::rat) powi 12 \<le> 2 powi 1023" by (rule power_int_increasing) simp_all
  also have "(2::rat) powi 1023 \<le> 2 powi 1024 - 2 powi 970" by (rule threshold_ge)
  finally show ?thesis .
qed

text \<open>At the float nearest to 23.976 frames per second, 125 seconds give 2997 frames.\<close>

theorem total_frames_rounded_product_witness:
  "fps film_clip = Fin (210895126300459 / 8796093022208) \<and> duration film_clip = Fin 125
   \<and> (0::rat) \<le> 210895126300459 / 8796093022208 \<and> (0::rat) \<le> 125
   \<and> (210895126300459 / 8796093022208 :: rat) * 125 < 2 powi 1024 - 2 powi 970
   \<and> float_mul (fps film_clip) (duration film_clip) = Fin 2997
   \<and> total_frames_of film_clip = Inr 2997"
proof -
  have a: "fps film_clip = Fin (210895126300459 / 8796093022208)"
    and b: "duration film_clip = Fin 125" by (simp_all add: film_clip_def)
  have c: "(0::rat) \<le> 210895126300459 / 8796093022208" and d: "(0::rat) \<le> 125" by simp_all
  have e: "(210895126300459 / 8796093022208 :: rat) * 125 < 2 powi 1024 - 2 powi 970"
    unfolding film_clip_product by (rule below_overflow)
  obtain q where q: "float_mul (fps film_clip) (duration film_clip) = Fin q"
    "b64_round (210895126300459 / 8796093022208 * 125) = Fin q"
    "total_frames_of film_clip = Inr \<lfloor>q\<rfloor>"
    using total_frames_rounded_product[OF a b c d e] by blast
  have "Fin q = Fin 2997" using q(2) unfolding film_clip_product b64_round_2997 by (rule sym)
  then have qe: "q = 2997" by (simp only: pyfloat.inject)
  have fl: "\<lfloor>2997 :: rat\<rfloor> = 2997" by simp
  have f: "float_mul (fps film_clip) (duration film_clip) = Fin 2997" using q(1) unfolding qe .
  have "total_frames_of film_clip = Inr \<lfloor>2997 :: rat\<rfloor>" using q(3) unfolding qe .
  then have t: "total_frames_of film_clip = Inr 2997" by (simp only: fl)
  show ?thesis using a b c d e f t by blast
qed

lemma ntsc_clip_floor: "\<lfloor>26361890787557375 / 8796093022208 :: rat\<rfloor> = 2996"
  by (rule floor_unique) simp_all

text \<open>
  Claim C8, as stated, fails at the float nearest to 29.97 frames per second and a
  duration of 100 seconds: the exact product is below 2997 and its floor is 2996, the
  float product is \<open>2997.0\<close>, and the total frame count is 2997.
\<close>

theorem total_frames_not_floor:
  "fps ntsc_clip = Fin (1054475631502295 / 35184372088832) \<and> duration ntsc_clip = Fin 100
   \<and> total_frames_of ntsc_clip = Inr 2997
   \<and> \<lfloor>(1054475631502295 / 35184372088832 :: rat) * 100\<rfloor> = 2996"
proof -
  have "float_mul (fps ntsc_clip) (duration ntsc_clip)
          = b64_round ((1054475631502295 / 35184372088832) * 100)"
    by (simp only: ntsc_clip_def clip.simps float_mul.simps)
  then have "float_mul (fps ntsc_clip) (duration ntsc_clip) = Fin 2997"
    unfolding ntsc_clip_product b64_round_2997 .
  then have t: "total_frames_of ntsc_clip = Inr 2997"
    by (simp add: total_frames_of_def trunc_int_def)
  have f: "\<lfloor>(1054475631502295 / 35184372088832 :: rat) * 100\<rfloor> = 2996"
    unfolding ntsc_clip_product by (rule ntsc_clip_floor)
  show ?thesis using t f by (simp add: ntsc_clip_def)
qed

subsection \<open>The output directory\<close>

text \<open>The output directory is the sibling \<open>images\<close> of the video file.  When it is there,
  lines 63 to 65 remove it with all it holds and create it again, empty.\<close>

lemma output_dir_of_parts:
  "output_dir_of p = p\<lparr>parts := butlast (parts p) @ [''images'']\<rparr>"
  by (simp add: output_dir_of_def joinpath_def Path_images parent_def Let_def)

lemma parent_output_dir: "parent (output_dir_of p) = parent p"
  by (simp add: output_dir_of_parts parent_def)

lemma not_inside_parent: "\<not> inside (output_dir_of p) (parent p)"
proof
  assume "inside (output_dir_of p) (parent p)"
  then have "prefix (butlast (parts p) @ [''images'']) (butlast (parts p))"
    by (simp add: inside_def output_dir_of_parts parent_def)
  then have "length (butlast (parts p) @ [''images'']) \<le> length (butlast (parts p))"
    by (rule prefix_length_le)
  then show False by simp
qed

lemma inside_refl [simp]: "inside d d"
  by (simp add: inside_def)

lemma make_output_dir_missing:
  assumes "files w (output_dir_of p) = None"
  shows "make_output_dir p w = Raise FileNotFoundError (emit (CallRmtree (output_dir_of p)) w)"
  using assms by (simp add: make_output_dir_def rmtree_def Let_def)

lemma make_output_dir_present:
  assumes "files w (output_dir_of p) = Some Dir" and "files w (parent p) = Some Dir"
  shows "make_output_dir p w
           = Continue (output_dir_of p)
               ((emit (CallMkdir (output_dir_of p)) (emit (CallRmtree (output_dir_of p)) w))
                  \<lparr>files := (\<lambda>q. if inside (output_dir_of p) q then None else files w q)
                              (output_dir_of p \<mapsto> Dir)\<rparr>)"
  using assms
  by (simp add: make_output_dir_def rmtree_def mkdir_def Let_def parent_output_dir
      not_inside_parent emit_def cong: if_cong)

lemma main_valid_prefix:
  assumes "resolve_input env path w = Continue p w1" and "open_clip env p w1 = Continue (c, n) w2"
    and "valid_perc_frames x"
  shows "main env path x m w =
     bind (make_output_dir p (emit (CheckPercFrames True) w2)) (\<lambda>output_dir w.
     bind (sample_frames n x m w) (\<lambda>ixs w.
     bind (extract_frames env c output_dir ixs
             (emit (Print (''Extracting frames to '' @ str_path output_dir @ ''...'')) w))
       (\<lambda>_ w.
     Return (emit (Print (''Frame extraction complete. '' @ str_int (int (length ixs))
                          @ '' frames saved in '' @ str_path output_dir @ ''.'')) w))))"
  using assms by (simp add: main_def check_perc_frames_valid)

text \<open>
  Claim C1 fails on the code.  On a run that passes input resolution and the check of the
  fraction, when the output directory does not exist, \<open>shutil.rmtree\<close> raises
  \<open>FileNotFoundError\<close>: the run ends there, and no directory is created.
\<close>

theorem output_dir_missing_raises:
  assumes "resolve_input env path w = Continue p w1" and "open_clip env p w1 = Continue (c, n) w2"
    and "valid_perc_frames perc_frames" and "files w2 (output_dir_of p) = None"
  shows "main env path perc_frames max_frames w
           = Raise FileNotFoundError
               (emit (CallRmtree (output_dir_of p)) (emit (CheckPercFrames True) w2))
         \<and> files (world_of (main env path perc_frames max_frames w)) = files w2
         \<and> files (world_of (main env path perc_frames max_frames w)) (output_dir_of p) = None"
  using assms by (simp add: main_valid_prefix make_output_dir_missing)

lemma output_dir_video: "output_dir_of (Path ''video.mp4'') = Path ''images''"
  by (simp add: output_dir_of_parts Path_video Path_images)

theorem output_dir_missing_raises_witness:
  "resolve_input demo_env ''video.mp4'' first_run
     = Continue (Path ''video.mp4'') (emit (CallExists (Path ''video.mp4'')) first_run)
   \<and> open_clip demo_env (Path ''video.mp4'') (emit (CallExists (Path ''video.mp4'')) first_run)
       = Continue (demo_clip, 10)
           (emit (TotalFrames 10) (emit (CallVideoFileClip ''video.mp4'')
              (emit (CallExists (Path ''video.mp4'')) first_run)))
   \<and> valid_perc_frames (Fin (1 / 2))
   \<and> files first_run (Path ''images'') = None
   \<and> main demo_env ''video.mp4'' (Fin (1 / 2)) 180 first_run
       = Raise FileNotFoundError
           (emit (CallRmtree (Path ''images'')) (emit (CheckPercFrames True)
              (emit (TotalFrames 10) (emit (CallVideoFileClip ''video.mp4'')
                 (emit (CallExists (Path ''video.mp4'')) first_run)))))
   \<and> files (world_of (main demo_env ''video.mp4'' (Fin (1 / 2)) 180 first_run)) (Path ''images'')
       = None"
proof -
  have v: "valid_perc_frames (Fin (1 / 2))" by simp
  have n: "files first_run (Path ''images'') = None"
    by (simp add: first_run_def first_run_files_def demo_paths)
  have n': "files (emit (TotalFrames 10) (emit (CallVideoFileClip ''video.mp4'')
              (emit (CallExists (Path ''video.mp4'')) first_run)))
            (output_dir_of (Path ''video.mp4'')) = None"
    using n by (simp add: output_dir_video)
  show ?thesis
    using output_dir_missing_raises[OF resolve_input_first_run open_clip_demo v n', of 180]
      resolve_input_first_run open_clip_demo v n
    by (simp add: output_dir_video)
qed

subsection \<open>The names of the image files\<close>


lemma digit_in: "n < 10 \<Longrightarrow> ''0123456789'' ! n \<in> set ''0123456789''"
  by (rule nth_mem) simp

lemma str_nat_small: "n < 10 \<Longrightarrow> str_nat n = [''0123456789'' ! n]"
  by (subst str_nat.simps) simp

lemma str_nat_large:
  "10 \<le> n \<Longrightarrow> str_nat n = str_nat (n div 10) @ [''0123456789'' ! (n mod 10)]"
  by (subst str_nat.simps) simp

lemma str_nat_not_Nil: "str_nat n \<noteq> []"
  by (cases "n < 10") (simp_all add: str_nat_small str_nat_large)


lemma str_nat_chars: "set (str_nat n) \<subseteq> set ''0123456789''"
proof (induction n rule: str_nat.induct)
  case (1 n)
  show ?case
  proof (cases "n < 10")
    case True
    then show ?thesis using digit_in[of n] by (simp only: str_nat_small) simp
  next
    case False
    then have "set (str_nat (n div 10)) \<subseteq> set ''0123456789''" using 1 by simp
    moreover have "''0123456789'' ! (n mod 10) \<in> set ''0123456789''" by (rule digit_in) simp
    ultimately show ?thesis using False by (simp only: str_nat_large) simp
  qed
qed


lemma str_int_chars: "set (str_int i) \<subseteq> set ''-0123456789''"
proof (cases "i < 0")
  case True
  have "set (str_nat (nat (- i))) \<subseteq> set ''-0123456789''"
    using str_nat_chars[of "nat (- i)"] by (rule subset_trans) (simp add: subset_insertI2)
  then show ?thesis using True by (simp add: str_int_def)
next
  case False
  have "set (str_nat (nat i)) \<subseteq> set ''-0123456789''"
    using str_nat_chars[of "nat i"] by (rule subset_trans) (simp add: subset_insertI2)
  then show ?thesis using False by (simp add: str_int_def)
qed

lemma str_int_not_Nil: "str_int i \<noteq> []"
  by (simp add: str_int_def str_nat_not_Nil)



lemma jpg_name:
  "CHR ''/'' \<notin> set (str_int i @ ''.jpg'')" "str_int i @ ''.jpg'' \<noteq> ''''"
  "str_int i @ ''.jpg'' \<noteq> ''.''"
  using str_int_chars[of i] by auto

lemma target_path:
  "joinpath output_dir (str_int fnum @ ''.jpg'')
     = output_dir\<lparr>parts := parts output_dir @ [str_int fnum @ ''.jpg'']\<rparr>"
  by (simp add: joinpath_def Path_single[OF jpg_name] Let_def)


lemma target_not_dir: "joinpath output_dir (str_int i @ ''.jpg'') \<noteq> output_dir"
proof
  assume "joinpath output_dir (str_int i @ ''.jpg'') = output_dir"
  then have "parts (joinpath output_dir (str_int i @ ''.jpg'')) = parts output_dir" by simp
  then show False by (simp add: target_path)
qed

subsection \<open>The loop\<close>

lemma frame_ok_calls:
  assumes "frame_ok env c output_dir fnum"
  shows "\<exists>t fr img. int_truediv fnum (fps c) = Inr t \<and> get_frame c t = Inr fr
           \<and> fromarray env fr = Inr img \<and> frame_image env c fnum = Some img
           \<and> save env img (str_path (joinpath output_dir (str_int fnum @ ''.jpg''))) = None
           \<and> frame_events env c output_dir fnum
               = [CallGetFrame t, CallSave img (joinpath output_dir (str_int fnum @ ''.jpg''))]"
  using assms
  by (auto simp: frame_ok_def frame_image_def frame_events_def split: sum.splits option.splits)

lemma frames_written_Cons:
  "frames_written env c output_dir (fnum # ixs) f
     = frames_written env c output_dir ixs
         (f(joinpath output_dir (str_int fnum @ ''.jpg'') \<mapsto> File (frame_image env c fnum)))"
  by (simp add: frames_written_def)

lemma frames_written_snoc:
  "frames_written env c output_dir (ixs @ [fnum]) f
     = (frames_written env c output_dir ixs f)
         (joinpath output_dir (str_int fnum @ ''.jpg'') \<mapsto> File (frame_image env c fnum))"
  by (simp add: frames_written_def)

lemma extract_frames_ok:
  assumes "\<forall>fnum\<in>set ixs. frame_ok env c output_dir fnum"
  shows "extract_frames env c output_dir ixs w
           = Continue () (w\<lparr>files := frames_written env c output_dir ixs (files w),
                             trace := trace w @ concat (map (frame_events env c output_dir) ixs)\<rparr>)"
  using assms
proof (induction ixs arbitrary: w)
  case Nil
  then show ?case by (simp add: frames_written_def)
next
  case (Cons fnum ixs)
  then have "frame_ok env c output_dir fnum" by simp
  from frame_ok_calls[OF this] obtain t fr img where
    c: "int_truediv fnum (fps c) = Inr t" "get_frame c t = Inr fr" "fromarray env fr = Inr img"
      "frame_image env c fnum = Some img"
      "save env img (str_path (joinpath output_dir (str_int fnum @ ''.jpg''))) = None"
      "frame_events env c output_dir fnum
         = [CallGetFrame t, CallSave img (joinpath output_dir (str_int fnum @ ''.jpg''))]"
    by blast
  have r: "\<forall>fnum\<in>set ixs. frame_ok env c output_dir fnum" using Cons.prems by simp
  show ?case
    by (simp add: c Let_def Cons.IH[OF r] frames_written_Cons emit_def fun_upd_def cong: if_cong)
qed


lemma frames_written_elsewhere:
  assumes "\<forall>fnum\<in>set ixs. q \<noteq> joinpath output_dir (str_int fnum @ ''.jpg'')"
  shows "frames_written env c output_dir ixs f q = f q"
  using assms by (induction ixs rule: rev_induct) (simp_all add: frames_written_snoc frames_written_def)

lemma frames_written_dir: "frames_written env c output_dir ixs f output_dir = f output_dir"
  by (rule frames_written_elsewhere) (simp add: target_not_dir[symmetric])

lemma save_events:
  assumes "\<forall>fnum\<in>set ixs. frame_ok env c output_dir fnum"
  shows "length (filter is_save (concat (map (frame_events env c output_dir) ixs))) = length ixs"
  using assms
proof (induction ixs)
  case Nil
  then show ?case by simp
next
  case (Cons fnum ixs)
  then have "frame_ok env c output_dir fnum" by simp
  from frame_ok_calls[OF this] obtain t img where
    "frame_events env c output_dir fnum
       = [CallGetFrame t, CallSave img (joinpath output_dir (str_int fnum @ ''.jpg''))]"
    by blast
  then show ?case using Cons by simp
qed

lemma no_error_print_events:
  "filter is_error_print (concat (map (frame_events env c output_dir) ixs)) = []"
  by (induction ixs) (auto simp: frame_events_def split: sum.splits option.splits)

lemma sample_frames_ok:
  assumes "frame_step x = Inr s" and "frame_indices n s m = Inr ixs"
  shows "sample_frames n x m w = Continue ixs (emit (FrameIndices ixs) (emit (FrameStep s) w))"
  using assms by (simp add: sample_frames_def Let_def)

lemma main_completes:
  assumes "resolve_input env path w = Continue p w1" and "open_clip env p w1 = Continue (c, n) w2"
    and "valid_perc_frames x"
    and "files w2 (output_dir_of p) = Some Dir" and "files w2 (parent p) = Some Dir"
    and "frame_step x = Inr s" and "frame_indices n s m = Inr ixs"
    and "\<forall>fnum\<in>set ixs. frame_ok env c (output_dir_of p) fnum"
  shows "main env path x m w
           = Return \<lparr>files = frames_written env c (output_dir_of p) ixs
                               ((\<lambda>q. if inside (output_dir_of p) q then None else files w2 q)
                                  (output_dir_of p \<mapsto> Dir)),
                     trace = trace w2
                       @ [CheckPercFrames True, CallRmtree (output_dir_of p),
                          CallMkdir (output_dir_of p), FrameStep s, FrameIndices ixs,
                          Print (''Extracting frames to '' @ str_path (output_dir_of p) @ ''...'')]
                       @ concat (map (frame_events env c (output_dir_of p)) ixs)
                       @ [Print (''Frame extraction complete. '' @ str_int (int (length ixs))
                                 @ '' frames saved in '' @ str_path (output_dir_of p) @ ''.'')]\<rparr>"
proof -
  have d: "make_output_dir p (emit (CheckPercFrames True) w2)
             = Continue (output_dir_of p)
                ((emit (CallMkdir (output_dir_of p)) (emit (CallRmtree (output_dir_of p))
                    (emit (CheckPercFrames True) w2)))
                  \<lparr>files := (\<lambda>q. if inside (output_dir_of p) q then None
                                   else files (emit (CheckPercFrames True) w2) q)
                              (output_dir_of p \<mapsto> Dir)\<rparr>)"
    by (rule make_output_dir_present) (simp_all add: assms)
  have "main env path x m w
          = Return (emit (Print (''Frame extraction complete. '' @ str_int (int (length ixs))
                                 @ '' frames saved in '' @ str_path (output_dir_of p) @ ''.''))
              ((emit (Print (''Extracting frames to '' @ str_path (output_dir_of p) @ ''...''))
                 (emit (FrameIndices ixs) (emit (FrameStep s)
                   ((emit (CallMkdir (output_dir_of p)) (emit (CallRmtree (output_dir_of p))
                      (emit (CheckPercFrames True) w2)))
                    \<lparr>files := (\<lambda>q. if inside (output_dir_of p) q then None
                                     else files (emit (CheckPercFrames True) w2) q)
                                (output_dir_of p \<mapsto> Dir)\<rparr>))))
               \<lparr>files := frames_written env c (output_dir_of p) ixs
                    ((\<lambda>q. if inside (output_dir_of p) q then None
                          else files (emit (CheckPercFrames True) w2) q)
                       (output_dir_of p \<mapsto> Dir)),
                 trace := trace (emit (Print (''Extracting frames to ''
                                   @ str_path (output_dir_of p) @ ''...''))
                    (emit (FrameIndices ixs) (emit (FrameStep s)
                      (emit (CallMkdir (output_dir_of p)) (emit (CallRmtree (output_dir_of p))
                        (emit (CheckPercFrames True) w2))))))
                   @ concat (map (frame_events env c (output_dir_of p)) ixs)\<rparr>))"
    by (simp add: main_valid_prefix[OF assms(1-3)] d sample_frames_ok[OF assms(6,7)]
        extract_frames_ok[OF assms(8)])
  then show ?thesis
    by (simp add: emit_def cong: if_cong)
qed


lemma float_of_int_0: "float_of_int 0 = Inr (Fin 0)"
  by (simp add: float_of_int_def b64_round_def)

lemma float_of_int_2: "float_of_int 2 = Inr (Fin 2)"
  by (simp add: float_of_int_def b64_round_2)

lemma frame_time_demo:
  "int_truediv 0 (Fin 1) = Inr (Fin 0)" "int_truediv 1 (Fin 1) = Inr (Fin 1)"
  "int_truediv 2 (Fin 1) = Inr (Fin 2)"
  by (simp_all add: int_truediv_def float_of_int_0 float_of_int_one float_of_int_2
      b64_round_1 b64_round_2 b64_round_def[of 0])

lemma frame_image_demo:
  "frame_image demo_env demo_clip 0 = Some 7" "frame_image demo_env demo_clip 1 = Some 7"
  "frame_image demo_env demo_clip 2 = Some 7"
  by (simp_all add: frame_image_def demo_clip_def demo_env_def frame_time_demo)

lemma frame_ok_demo:
  "frame_ok demo_env demo_clip d 0" "frame_ok demo_env demo_clip d 1"
  "frame_ok demo_env demo_clip d 2"
  by (simp_all add: frame_ok_def frame_image_demo) (simp_all add: demo_env_def)

lemma frame_events_demo:
  "frame_events demo_env demo_clip d 0
     = [CallGetFrame (Fin 0), CallSave 7 (joinpath d (str_int 0 @ ''.jpg''))]"
  "frame_events demo_env demo_clip d 1
     = [CallGetFrame (Fin 1), CallSave 7 (joinpath d (str_int 1 @ ''.jpg''))]"
  "frame_events demo_env demo_clip d 2
     = [CallGetFrame (Fin 2), CallSave 7 (joinpath d (str_int 2 @ ''.jpg''))]"
proof -
  have "fps demo_clip = Fin 1" by (simp add: demo_clip_def)
  then show
    "frame_events demo_env demo_clip d 0
       = [CallGetFrame (Fin 0), CallSave 7 (joinpath d (str_int 0 @ ''.jpg''))]"
    "frame_events demo_env demo_clip d 1
       = [CallGetFrame (Fin 1), CallSave 7 (joinpath d (str_int 1 @ ''.jpg''))]"
    "frame_events demo_env demo_clip d 2
       = [CallGetFrame (Fin 2), CallSave 7 (joinpath d (str_int 2 @ ''.jpg''))]"
    by (simp_all add: frame_events_def frame_image_demo frame_time_demo)
qed

lemma str_int_small:
  "str_int 0 = ''0''" "str_int 1 = ''1''" "str_int 2 = ''2''" "str_int 3 = ''3''"
  by (simp_all add: str_int_def str_nat_small)

lemma demo_dirs:
  "files demo_world (Path ''images'') = Some Dir" "files demo_world (Path ''.'') = Some Dir"
  "parent (Path ''video.mp4'') = Path ''.''" "str_path (Path ''images'') = ''images''"
  by (simp_all add: demo_world_def demo_files_def first_run_files_def demo_paths parent_def
      str_path_def)

lemma demo_targets:
  "joinpath (Path ''images'') ''0.jpg'' = Path ''images/0.jpg''"
  "joinpath (Path ''images'') ''1.jpg'' = Path ''images/1.jpg''"
  "joinpath (Path ''images'') ''2.jpg'' = Path ''images/2.jpg''"
  "(Path ''images'')\<lparr>parts := parts (Path ''images'') @ [''0.jpg'']\<rparr> = Path ''images/0.jpg''"
  "(Path ''images'')\<lparr>parts := parts (Path ''images'') @ [''1.jpg'']\<rparr> = Path ''images/1.jpg''"
  "(Path ''images'')\<lparr>parts := parts (Path ''images'') @ [''2.jpg'']\<rparr> = Path ''images/2.jpg''"
  by (simp_all add: joinpath_def Path_def Let_def)

lemma frame_indices_demo: "frame_indices 10 1 3 = Inr [0, 1, 2]"
proof -
  have "frame_indices 10 1 3 = Inr (take (nat 3) (strided_indices 10 1))"
    by (rule frame_indices_nonneg) simp_all
  then show ?thesis by (simp add: strided_10_1)
qed


subsection \<open>The maximum frame count\<close>

lemma frame_step_ge_1: "frame_step x = Inr s \<Longrightarrow> 1 \<le> s"
  by (auto simp: frame_step_def split: sum.splits)

lemma frame_indices_slice:
  "1 \<le> s \<Longrightarrow> frame_indices n s m = Inr (slice_stop (strided_indices n s) m)"
  by (simp add: frame_indices_def py_range_strided)

lemma slice_stop_nonpos:
  assumes "m \<le> 0"
  shows "slice_stop xs m
           = take (nat (if m = 0 then 0 else max 0 (int (length xs) + m))) xs"
    and "length (slice_stop xs m) = nat (if m = 0 then 0 else max 0 (int (length xs) + m))"
  using assms by (auto simp: slice_stop_def Let_def)

lemma not_error_prints [simp]:
  "\<not> is_error_print (Print (''Extracting frames to '' @ s))"
  "\<not> is_error_print (Print (''Frame extraction complete. '' @ s))"
  by simp_all

text \<open>
  Claim C10, as the code has it.  On a run that reaches the sampling of line 69 (the
  input resolves, the video opens, the fraction is valid, the output directory and its
  parent are there, the stride is computed) and on which the calls of the loop succeed,
  a maximum frame count of zero or less is used as it is.  The frame indices are the first
  \<open>max(0, N + max_frames)\<close> of the \<open>N\<close> strided indices, none when \<open>max_frames = 0\<close>; that many
  frames are saved, the run prints no error message and returns, the output directory
  has been created again, and it is empty when \<open>max_frames = 0\<close>.
\<close>

theorem max_frames_not_validated:
  assumes "resolve_input env path w = Continue p w1"
    and "open_clip env p w1 = Continue (c, n) w2"
    and "valid_perc_frames perc_frames"
    and "files w2 (output_dir_of p) = Some Dir" and "files w2 (parent p) = Some Dir"
    and "frame_step perc_frames = Inr step"
    and "max_frames \<le> 0"
    and "\<forall>fnum\<in>set (slice_stop (strided_indices n step) max_frames).
           frame_ok env c (output_dir_of p) fnum"
  shows "\<exists>w' ixs. main env path perc_frames max_frames w = Return w'
           \<and> ixs = take (nat (if max_frames = 0 then 0
                               else max 0 (int (length (strided_indices n step)) + max_frames)))
                      (strided_indices n step)
           \<and> length ixs = nat (if max_frames = 0 then 0
                                else max 0 (int (length (strided_indices n step)) + max_frames))
           \<and> trace w' = trace w2
               @ [CheckPercFrames True, CallRmtree (output_dir_of p), CallMkdir (output_dir_of p),
                  FrameStep step, FrameIndices ixs,
                  Print (''Extracting frames to '' @ str_path (output_dir_of p) @ ''...'')]
               @ concat (map (frame_events env c (output_dir_of p)) ixs)
               @ [Print (''Frame extraction complete. '' @ str_int (int (length ixs))
                         @ '' frames saved in '' @ str_path (output_dir_of p) @ ''.'')]
           \<and> length (filter is_save (trace w')) = length (filter is_save (trace w2)) + length ixs
           \<and> filter is_error_print (trace w') = filter is_error_print (trace w2)
           \<and> files w' (output_dir_of p) = Some Dir
           \<and> (max_frames = 0 \<longrightarrow>
                 (\<forall>q. inside (output_dir_of p) q \<and> q \<noteq> output_dir_of p \<longrightarrow> files w' q = None))"
proof -
  let ?od = "output_dir_of p"
  let ?ixs = "slice_stop (strided_indices n step) max_frames"
  let ?w' = "\<lparr>files = frames_written env c ?od ?ixs
                        ((\<lambda>q. if inside ?od q then None else files w2 q)(?od \<mapsto> Dir)),
              trace = trace w2
                @ [CheckPercFrames True, CallRmtree ?od, CallMkdir ?od, FrameStep step,
                   FrameIndices ?ixs, Print (''Extracting frames to '' @ str_path ?od @ ''...'')]
                @ concat (map (frame_events env c ?od) ?ixs)
                @ [Print (''Frame extraction complete. '' @ str_int (int (length ?ixs))
                          @ '' frames saved in '' @ str_path ?od @ ''.'')]\<rparr>"
  have s: "1 \<le> step" using assms(6) by (rule frame_step_ge_1)
  have ix: "frame_indices n step max_frames = Inr ?ixs" using s by (rule frame_indices_slice)
  have m: "main env path perc_frames max_frames w = Return ?w'"
    using assms(1-6) ix assms(8) by (rule main_completes)
  have e: "?ixs = take (nat (if max_frames = 0 then 0
                             else max 0 (int (length (strided_indices n step)) + max_frames)))
                    (strided_indices n step)"
    using assms(7) by (rule slice_stop_nonpos(1))
  have l: "length ?ixs = nat (if max_frames = 0 then 0
                              else max 0 (int (length (strided_indices n step)) + max_frames))"
    using assms(7) by (rule slice_stop_nonpos(2))
  have sv: "length (filter is_save (trace ?w')) = length (filter is_save (trace w2)) + length ?ixs"
    using save_events[OF assms(8)] by simp
  have er: "filter is_error_print (trace ?w') = filter is_error_print (trace w2)"
    by (simp add: no_error_print_events)
  have d: "files ?w' ?od = Some Dir" by (simp add: frames_written_dir)
  have z: "max_frames = 0 \<longrightarrow>
             (\<forall>q. inside ?od q \<and> q \<noteq> ?od \<longrightarrow> files ?w' q = None)"
  proof (intro impI allI)
    fix q
    assume "max_frames = 0" and "inside ?od q \<and> q \<noteq> ?od"
    then show "files ?w' q = None" by (simp add: slice_stop_def frames_written_def)
  qed
  have t: "trace ?w' = trace w2
                @ [CheckPercFrames True, CallRmtree ?od, CallMkdir ?od, FrameStep step,
                   FrameIndices ?ixs, Print (''Extracting frames to '' @ str_path ?od @ ''...'')]
                @ concat (map (frame_events env c ?od) ?ixs)
                @ [Print (''Frame extraction complete. '' @ str_int (int (length ?ixs))
                          @ '' frames saved in '' @ str_path ?od @ ''.'')]"
    by (simp only: world.simps)
  show ?thesis
    apply (rule exI[of _ ?w'])
    apply (rule exI[of _ ?ixs])
    apply (intro conjI)
           apply (rule m)
          apply (rule e)
         apply (rule l)
        apply (rule t)
       apply (rule sv)
      apply (rule er)
     apply (rule d)
    apply (rule z)
    done
qed

lemma strided_length_demo: "length (strided_indices 10 1) = 10"
  by (simp add: strided_10_1)

lemma slice_demo:
  "slice_stop (strided_indices 10 1) 0 = []" "slice_stop (strided_indices 10 1) (- 8) = [0, 1]"
  by (simp_all add: strided_10_1 slice_stop_def)

theorem max_frames_not_validated_witness:
  "valid_perc_frames (Fin 1)
   \<and> files demo_world (Path ''images'') = Some Dir \<and> files demo_world (Path ''.'') = Some Dir
   \<and> frame_step (Fin 1) = Inr 1 \<and> (0::int) \<le> 0 \<and> (- 8::int) \<le> 0
   \<and> frame_ok demo_env demo_clip (Path ''images'') 0
   \<and> frame_ok demo_env demo_clip (Path ''images'') 1
   \<and> (\<exists>w'. main demo_env ''video.mp4'' (Fin 1) 0 demo_world = Return w'
        \<and> trace w' =
            [CallExists (Path ''video.mp4''), CallVideoFileClip ''video.mp4'', TotalFrames 10,
             CheckPercFrames True, CallRmtree (Path ''images''), CallMkdir (Path ''images''),
             FrameStep 1, FrameIndices [], Print ''Extracting frames to images...'',
             Print ''Frame extraction complete. 0 frames saved in images.'']
        \<and> files w' (Path ''images'') = Some Dir \<and> files w' (Path ''images/old.jpg'') = None)
   \<and> (\<exists>w'. main demo_env ''video.mp4'' (Fin 1) (- 8) demo_world = Return w'
        \<and> trace w' =
            [CallExists (Path ''video.mp4''), CallVideoFileClip ''video.mp4'', TotalFrames 10,
             CheckPercFrames True, CallRmtree (Path ''images''), CallMkdir (Path ''images''),
             FrameStep 1, FrameIndices [0, 1], Print ''Extracting frames to images...'',
             CallGetFrame (Fin 0), CallSave 7 (Path ''images/0.jpg''),
             CallGetFrame (Fin 1), CallSave 7 (Path ''images/1.jpg''),
             Print ''Frame extraction complete. 2 frames saved in images.''])"
proof -
  let ?w1 = "emit (CallExists (Path ''video.mp4'')) demo_world"
  let ?w2 = "emit (TotalFrames 10) (emit (CallVideoFileClip ''video.mp4'') ?w1)"
  have v: "valid_perc_frames (Fin 1)" by simp
  have d1: "files ?w2 (output_dir_of (Path ''video.mp4'')) = Some Dir"
    and d2: "files ?w2 (parent (Path ''video.mp4'')) = Some Dir"
    by (simp_all add: output_dir_video demo_dirs)
  have m0: "(0::int) \<le> 0" and m8: "(- 8::int) \<le> 0" by simp_all
  have ok0: "\<forall>fnum\<in>set (slice_stop (strided_indices 10 1) 0).
               frame_ok demo_env demo_clip (output_dir_of (Path ''video.mp4'')) fnum"
    by (simp add: slice_demo)
  have ok8: "\<forall>fnum\<in>set (slice_stop (strided_indices 10 1) (- 8)).
               frame_ok demo_env demo_clip (output_dir_of (Path ''video.mp4'')) fnum"
    by (simp add: slice_demo frame_ok_demo)
  have ins: "inside (Path ''images'') (Path ''images/old.jpg'')"
    "Path ''images/old.jpg'' \<noteq> Path ''images''"
    by (simp_all add: inside_def demo_paths)
  have a: "\<exists>w'. main demo_env ''video.mp4'' (Fin 1) 0 demo_world = Return w'
        \<and> trace w' =
            [CallExists (Path ''video.mp4''), CallVideoFileClip ''video.mp4'', TotalFrames 10,
             CheckPercFrames True, CallRmtree (Path ''images''), CallMkdir (Path ''images''),
             FrameStep 1, FrameIndices [], Print ''Extracting frames to images...'',
             Print ''Frame extraction complete. 0 frames saved in images.'']
        \<and> files w' (Path ''images'') = Some Dir \<and> files w' (Path ''images/old.jpg'') = None"
    using max_frames_not_validated[OF resolve_input_demo open_clip_demo v d1 d2 frame_step_one
        m0 ok0] ins
    by (auto simp: output_dir_video demo_dirs str_int_small demo_world_def)
  have b: "\<exists>w'. main demo_env ''video.mp4'' (Fin 1) (- 8) demo_world = Return w'
        \<and> trace w' =
            [CallExists (Path ''video.mp4''), CallVideoFileClip ''video.mp4'', TotalFrames 10,
             CheckPercFrames True, CallRmtree (Path ''images''), CallMkdir (Path ''images''),
             FrameStep 1, FrameIndices [0, 1], Print ''Extracting frames to images...'',
             CallGetFrame (Fin 0), CallSave 7 (Path ''images/0.jpg''),
             CallGetFrame (Fin 1), CallSave 7 (Path ''images/1.jpg''),
             Print ''Frame extraction complete. 2 frames saved in images.'']"
    using max_frames_not_validated[OF resolve_input_demo open_clip_demo v d1 d2 frame_step_one
        m8 ok8]
    by (auto simp: output_dir_video demo_dirs str_int_small demo_world_def strided_10_1
        frame_events_demo demo_targets)
  show ?thesis
    using v demo_dirs(1,2) frame_step_one m0 m8 frame_ok_demo(1,2) a b by blast
qed

text \<open>
  Claim C10, as stated for every run with \<open>max_frames = 0\<close>, fails on a first run, where
  no directory \<open>images\<close> exists: the run ends on line 64 and the output directory is
  not created.
\<close>

theorem max_frames_zero_first_run:
  "valid_perc_frames (Fin 1) \<and> files first_run (Path ''images'') = None
   \<and> main demo_env ''video.mp4'' (Fin 1) 0 first_run
       = Raise FileNotFoundError
           (emit (CallRmtree (Path ''images'')) (emit (CheckPercFrames True)
              (emit (TotalFrames 10) (emit (CallVideoFileClip ''video.mp4'')
                 (emit (CallExists (Path ''video.mp4'')) first_run)))))
   \<and> trace (world_of (main demo_env ''video.mp4'' (Fin 1) 0 first_run))
       = [CallExists (Path ''video.mp4''), CallVideoFileClip ''video.mp4'', TotalFrames 10,
          CheckPercFrames True, CallRmtree (Path ''images'')]
   \<and> files (world_of (main demo_env ''video.mp4'' (Fin 1) 0 first_run)) (Path ''images'') = None"
proof -
  let ?w2 = "emit (TotalFrames 10) (emit (CallVideoFileClip ''video.mp4'')
               (emit (CallExists (Path ''video.mp4'')) first_run))"
  have v: "valid_perc_frames (Fin 1)" by simp
  have n: "files first_run (Path ''images'') = None"
    by (simp add: first_run_def first_run_files_def demo_paths)
  have "files (emit (CheckPercFrames True) ?w2) (output_dir_of (Path ''video.mp4'')) = None"
    using n by (simp add: output_dir_video)
  then have "make_output_dir (Path ''video.mp4'') (emit (CheckPercFrames True) ?w2)
               = Raise FileNotFoundError
                   (emit (CallRmtree (output_dir_of (Path ''video.mp4'')))
                      (emit (CheckPercFrames True) ?w2))"
    by (rule make_output_dir_missing)
  then have m: "main demo_env ''video.mp4'' (Fin 1) 0 first_run
       = Raise FileNotFoundError
           (emit (CallRmtree (Path ''images'')) (emit (CheckPercFrames True) ?w2))"
    by (simp add: main_valid_prefix[OF resolve_input_first_run open_clip_demo v] output_dir_video)
  show ?thesis unfolding m using v n by (simp add: first_run_def)
qed

subsection \<open>The order of the stages\<close>

text \<open>Every block of the script adds events of its own phase to the trace.\<close>

lemma phases_within_Nil [simp]: "phases_within a b []"
  by (simp add: phases_within_def in_code_order_def map_filter_simps)

lemma phases_within_Print [simp]: "phases_within a b (Print s # es) = phases_within a b es"
  by (simp add: phases_within_def in_code_order_def map_filter_simps)

lemma phases_within_single:
  "code_phase e = Some k \<Longrightarrow> a \<le> k \<Longrightarrow> k \<le> b \<Longrightarrow> phases_within a b [e]"
  by (simp add: phases_within_def in_code_order_def map_filter_simps)

lemma phases_within_append:
  assumes "phases_within a b es" and "phases_within c d fs" and "a \<le> c" and "b \<le> c" and "b \<le> d"
  shows "phases_within a d (es @ fs)"
proof -
  have s: "sorted (List.map_filter code_phase es)" "sorted (List.map_filter code_phase fs)"
    using assms(1,2) by (simp_all add: phases_within_def in_code_order_def)
  have l: "\<forall>j\<in>set (List.map_filter code_phase es). a \<le> j \<and> j \<le> b"
    using assms(1) by (simp add: phases_within_def list_all_iff)
  have r: "\<forall>j\<in>set (List.map_filter code_phase fs). c \<le> j \<and> j \<le> d"
    using assms(2) by (simp add: phases_within_def list_all_iff)
  have m: "List.map_filter code_phase (es @ fs)
             = List.map_filter code_phase es @ List.map_filter code_phase fs"
    by (simp add: map_filter_def)
  have "sorted (List.map_filter code_phase (es @ fs))"
    unfolding m sorted_append using s l r assms(4) by fastforce
  moreover have "\<forall>j\<in>set (List.map_filter code_phase (es @ fs)). a \<le> j \<and> j \<le> d"
    unfolding m using l r assms(3,5) by fastforce
  ultimately show ?thesis by (simp add: phases_within_def in_code_order_def list_all_iff)
qed

lemma phases_within_phase:
  assumes "phases_within a b es" and "e \<in> set es" and "code_phase e = Some k"
  shows "a \<le> k \<and> k \<le> b"
proof -
  have "k \<in> set (List.map_filter code_phase es)"
    using assms(2,3) by (force simp: map_filter_def)
  then show ?thesis using assms(1) by (simp add: phases_within_def list_all_iff)
qed

lemma phases_within_in_code_order: "phases_within a b es \<Longrightarrow> in_code_order es"
  by (simp add: phases_within_def)

lemma in_code_order_before:
  assumes "in_code_order (xs @ e # ys)" and "code_phase e = Some k"
    and "x \<in> set (xs @ e # ys)" and "code_phase x = Some j" and "j < k"
  shows "x \<in> set xs"
proof (rule ccontr)
  assume n: "x \<notin> set xs"
  have "x \<noteq> e" using assms(2,4,5) by auto
  then have "x \<in> set ys" using assms(3) n by simp
  then have j: "j \<in> set (List.map_filter code_phase ys)"
    using assms(4) by (force simp: map_filter_def)
  have "List.map_filter code_phase (xs @ e # ys)
          = List.map_filter code_phase xs @ k # List.map_filter code_phase ys"
    using assms(2) by (simp add: map_filter_def)
  then have "sorted (List.map_filter code_phase xs @ k # List.map_filter code_phase ys)"
    using assms(1) by (simp add: in_code_order_def)
  then have "k \<le> j" using j by (simp add: sorted_append)
  then show False using assms(5) by simp
qed

lemma download_video_phases:
  "\<exists>es. trace (world_of (download_video env path w)) = trace w @ es \<and> phases_within 1 1 es"
  by (auto simp: download_video_def Let_def phases_within_def in_code_order_def map_filter_simps
      split: sum.splits option.splits prod.splits)

lemma resolve_input_phases:
  "\<exists>es. trace (world_of (resolve_input env path w)) = trace w @ es \<and> phases_within 1 1 es"
proof (cases "prefix ''http://'' path \<or> prefix ''https://'' path")
  case True
  obtain es where es: "trace (world_of (download_video env path w)) = trace w @ es"
    "phases_within 1 1 es"
    using download_video_phases by blast
  show ?thesis
  proof (cases "download_video env path w")
    case (Raise e w')
    then have "trace (world_of (resolve_input env path w))
                 = trace w @ (es @ [Print (''Error downloading video: '' @ str_exception env e)])"
      using True es(1) by (simp add: resolve_input_def)
    moreover have "phases_within 1 1 (es @ [Print (''Error downloading video: '' @ str_exception env e)])"
      using phases_within_append[OF es(2), of 1 1
          "[Print (''Error downloading video: '' @ str_exception env e)]"]
      by simp
    ultimately show ?thesis by blast
  qed (use True es in \<open>auto simp: resolve_input_def\<close>)
next
  case False
  then show ?thesis
    by (auto simp: resolve_input_local phases_within_def in_code_order_def map_filter_simps
        split: sum.splits)
qed

lemma open_clip_phases:
  "\<exists>es. trace (world_of (open_clip env p w)) = trace w @ es \<and> phases_within 2 2 es
        \<and> (\<forall>x w'. open_clip env p w = Continue x w' \<longrightarrow> TotalFrames (snd x) \<in> set es)"
  by (auto simp: open_clip_def Let_def phases_within_def in_code_order_def map_filter_simps
      split: sum.splits)

lemma make_output_dir_phases:
  "\<exists>es. trace (world_of (make_output_dir p w)) = trace w @ es \<and> phases_within 4 4 es"
  by (auto simp: make_output_dir_def Let_def phases_within_def in_code_order_def map_filter_simps
      split: sum.splits)

lemma sample_frames_phases:
  "\<exists>es. trace (world_of (sample_frames n x m w)) = trace w @ es \<and> phases_within 5 5 es"
  by (auto simp: sample_frames_def Let_def phases_within_def in_code_order_def map_filter_simps
      split: sum.splits)

lemma extract_frames_phases:
  "\<exists>es. trace (world_of (extract_frames env c d ixs w)) = trace w @ es \<and> phases_within 6 6 es"
proof (induction ixs arbitrary: w)
  case Nil
  show ?case by simp
next
  case (Cons fnum rest)
  show ?case
  proof (cases "int_truediv fnum (fps c)")
    case (Inl e)
    then show ?thesis by simp
  next
    case t: (Inr frame_time)
    show ?thesis
    proof (cases "get_frame c frame_time")
      case (Inl e)
      then show ?thesis
        using t by (simp add: Let_def phases_within_single)
    next
      case g: (Inr fr)
      show ?thesis
      proof (cases "fromarray env fr")
        case (Inl e)
        then show ?thesis using t g by (simp add: Let_def phases_within_single)
      next
        case f: (Inr img)
        let ?target = "joinpath d (str_int fnum @ ''.jpg'')"
        let ?two = "[CallGetFrame frame_time, CallSave img ?target]"
        have two: "phases_within 6 6 ?two"
          by (simp add: phases_within_def in_code_order_def map_filter_simps)
        show ?thesis
        proof (cases "save env img (str_path ?target)")
          case (Some e)
          then have "trace (world_of (extract_frames env c d (fnum # rest) w)) = trace w @ ?two"
            using t g f by (simp add: Let_def)
          then show ?thesis using two by blast
        next
          case None
          let ?w = "(emit (CallSave img ?target) (emit (CallGetFrame frame_time) w))
                      \<lparr>files := (files w)(?target \<mapsto> File (Some img))\<rparr>"
          have e: "extract_frames env c d (fnum # rest) w = extract_frames env c d rest ?w"
            using t g f None by (simp add: Let_def)
          obtain es where es: "trace (world_of (extract_frames env c d rest ?w)) = trace ?w @ es"
            "phases_within 6 6 es"
            using Cons.IH by blast
          have "trace (world_of (extract_frames env c d (fnum # rest) w)) = trace w @ (?two @ es)"
            unfolding e es(1) by simp
          moreover have "phases_within 6 6 (?two @ es)"
            using two es(2) by (rule phases_within_append) simp_all
          ultimately show ?thesis by blast
        qed
      qed
    qed
  qed
qed

lemma bind_phases:
  assumes "\<exists>es. trace (world_of m) = trace w @ es \<and> phases_within a b es"
    and "\<And>x w'. m = Continue x w' \<Longrightarrow>
           \<exists>es. trace (world_of (f x w')) = trace w' @ es \<and> phases_within c d es"
    and "a \<le> c" and "b \<le> c" and "b \<le> d"
  shows "\<exists>es. trace (world_of (bind m f)) = trace w @ es \<and> phases_within a d es"
proof -
  obtain es where es: "trace (world_of m) = trace w @ es" "phases_within a b es"
    using assms(1) by blast
  have w: "phases_within a d es"
    using phases_within_append[OF es(2) phases_within_Nil assms(3-5)] by simp
  show ?thesis
  proof (cases m)
    case (Continue x w')
    obtain fs where fs: "trace (world_of (f x w')) = trace w' @ fs" "phases_within c d fs"
      using assms(2)[OF Continue] by blast
    have "trace (world_of (bind m f)) = trace w @ (es @ fs)"
      using Continue es(1) fs(1) by simp
    moreover have "phases_within a d (es @ fs)"
      using es(2) fs(2) assms(3-5) by (rule phases_within_append)
    ultimately show ?thesis by blast
  next
    case (Return w')
    then show ?thesis using es(1) w by auto
  next
    case (Raise e w')
    then show ?thesis using es(1) w by auto
  qed
qed

lemma after_check_phases:
  "\<exists>es. trace (world_of
           (bind (make_output_dir p w) (\<lambda>output_dir w.
            bind (sample_frames n x m w) (\<lambda>ixs w.
            bind (extract_frames env c output_dir ixs
                    (emit (Print (''Extracting frames to '' @ str_path output_dir @ ''...'')) w))
              (\<lambda>_ w.
            Return (emit (Print (''Frame extraction complete. '' @ str_int (int (length ixs))
                                 @ '' frames saved in '' @ str_path output_dir @ ''.'')) w))))))
         = trace w @ es \<and> phases_within 4 6 es"
proof (rule bind_phases[where b = 4 and c = 5])
  show "\<exists>es. trace (world_of (make_output_dir p w)) = trace w @ es \<and> phases_within 4 4 es"
    by (rule make_output_dir_phases)
next
  fix output_dir w1
  show "\<exists>es. trace (world_of
           (bind (sample_frames n x m w1) (\<lambda>ixs w.
            bind (extract_frames env c output_dir ixs
                    (emit (Print (''Extracting frames to '' @ str_path output_dir @ ''...'')) w))
              (\<lambda>_ w.
            Return (emit (Print (''Frame extraction complete. '' @ str_int (int (length ixs))
                                 @ '' frames saved in '' @ str_path output_dir @ ''.'')) w)))))
         = trace w1 @ es \<and> phases_within 5 6 es"
  proof (rule bind_phases[where b = 5 and c = 6])
    show "\<exists>es. trace (world_of (sample_frames n x m w1)) = trace w1 @ es \<and> phases_within 5 5 es"
      by (rule sample_frames_phases)
  next
    fix ixs :: "int list" and w2 :: world
    let ?w3 = "emit (Print (''Extracting frames to '' @ str_path output_dir @ ''...'')) w2"
    let ?fin = "Print (''Frame extraction complete. '' @ str_int (int (length ixs))
                       @ '' frames saved in '' @ str_path output_dir @ ''.'')"
    obtain es where es: "trace (world_of (extract_frames env c output_dir ixs ?w3)) = trace ?w3 @ es"
      "phases_within 6 6 es"
      using extract_frames_phases by blast
    have all: "phases_within 6 6 (Print (''Extracting frames to '' @ str_path output_dir @ ''...'')
                                   # es @ [?fin])"
      using phases_within_append[OF es(2), of 6 6 "[?fin]"] by simp
    have part: "phases_within 6 6 (Print (''Extracting frames to '' @ str_path output_dir @ ''...'')
                                   # es)"
      using es(2) by simp
    show "\<exists>es. trace (world_of
             (bind (extract_frames env c output_dir ixs ?w3) (\<lambda>_ w. Return (emit ?fin w))))
           = trace w2 @ es \<and> phases_within 6 6 es"
    proof (cases "extract_frames env c output_dir ixs ?w3")
      case (Continue u w4)
      then have "trace (world_of (bind (extract_frames env c output_dir ixs ?w3)
                                   (\<lambda>_ w. Return (emit ?fin w))))
                   = trace w2 @ (Print (''Extracting frames to '' @ str_path output_dir @ ''...'')
                                 # es @ [?fin])"
        using es(1) by simp
      then show ?thesis using all by blast
    next
      case (Return w4)
      then have "trace (world_of (bind (extract_frames env c output_dir ixs ?w3)
                                   (\<lambda>_ w. Return (emit ?fin w))))
                   = trace w2 @ (Print (''Extracting frames to '' @ str_path output_dir @ ''...'')
                                 # es)"
        using es(1) by simp
      then show ?thesis using part by blast
    next
      case (Raise e w4)
      then have "trace (world_of (bind (extract_frames env c output_dir ixs ?w3)
                                   (\<lambda>_ w. Return (emit ?fin w))))
                   = trace w2 @ (Print (''Extracting frames to '' @ str_path output_dir @ ''...'')
                                 # es)"
        using es(1) by simp
      then show ?thesis using part by blast
    qed
  qed simp_all
qed simp_all

lemma phases_within_mono: "phases_within a b es \<Longrightarrow> b \<le> d \<Longrightarrow> phases_within a d es"
  by (auto simp: phases_within_def list_all_iff)

lemma main_trace:
  "\<exists>es. trace (world_of (main env path perc_frames max_frames w)) = trace w @ es
        \<and> phases_within 1 6 es
        \<and> ((\<exists>e\<in>set es. \<exists>k. code_phase e = Some k \<and> 3 \<le> k) \<longrightarrow> (\<exists>n. TotalFrames n \<in> set es))
        \<and> ((\<exists>e\<in>set es. \<exists>k. code_phase e = Some k \<and> 4 \<le> k) \<longrightarrow> CheckPercFrames True \<in> set es)"
proof -
  obtain es1 where es1: "trace (world_of (resolve_input env path w)) = trace w @ es1"
    "phases_within 1 1 es1"
    using resolve_input_phases by blast
  have early: ?thesis
    if t: "trace (world_of (main env path perc_frames max_frames w)) = trace w @ es"
      and p: "phases_within 1 2 es" for es
  proof -
    have "k \<le> 2" if "e \<in> set es" "code_phase e = Some k" for e k
      using phases_within_phase[OF p that] by simp
    then have "\<not> (\<exists>e\<in>set es. \<exists>k. code_phase e = Some k \<and> 3 \<le> k)"
      "\<not> (\<exists>e\<in>set es. \<exists>k. code_phase e = Some k \<and> 4 \<le> k)"
      by fastforce+
    moreover have "phases_within 1 6 es" using p by (rule phases_within_mono) simp
    ultimately show ?thesis using t by blast
  qed
  show ?thesis
  proof (cases "resolve_input env path w")
    case (Return w1)
    then have "trace (world_of (main env path perc_frames max_frames w)) = trace w @ es1"
      using es1(1) by (simp add: main_def)
    moreover have "phases_within 1 2 es1" using es1(2) by (rule phases_within_mono) simp
    ultimately show ?thesis by (rule early)
  next
    case (Raise e w1)
    then have "trace (world_of (main env path perc_frames max_frames w)) = trace w @ es1"
      using es1(1) by (simp add: main_def)
    moreover have "phases_within 1 2 es1" using es1(2) by (rule phases_within_mono) simp
    ultimately show ?thesis by (rule early)
  next
    case r1: (Continue p w1)
    then have w1: "trace w1 = trace w @ es1" using es1(1) by simp
    obtain es2 where es2: "trace (world_of (open_clip env p w1)) = trace w1 @ es2"
      "phases_within 2 2 es2"
      "\<forall>x w'. open_clip env p w1 = Continue x w' \<longrightarrow> TotalFrames (snd x) \<in> set es2"
      using open_clip_phases by blast
    have p12: "phases_within 1 2 (es1 @ es2)"
      using es1(2) es2(2) by (rule phases_within_append) simp_all
    show ?thesis
    proof (cases "open_clip env p w1")
      case (Return w2)
      then have "trace (world_of (main env path perc_frames max_frames w)) = trace w @ (es1 @ es2)"
        using r1 es2(1) w1 by (simp add: main_def)
      then show ?thesis using p12 by (rule early)
    next
      case (Raise e w2)
      then have "trace (world_of (main env path perc_frames max_frames w)) = trace w @ (es1 @ es2)"
        using r1 es2(1) w1 by (simp add: main_def)
      then show ?thesis using p12 by (rule early)
    next
      case r2: (Continue cn w2)
      obtain c n where cn: "cn = (c, n)" by (cases cn)
      have r2': "open_clip env p w1 = Continue (c, n) w2" using r2 cn by simp
      have w2: "trace w2 = trace w @ (es1 @ es2)" using r2 es2(1) w1 by simp
      have tf: "TotalFrames n \<in> set es2" using es2(3) r2' by fastforce
      show ?thesis
      proof (cases "valid_perc_frames perc_frames")
        case False
        let ?es = "(es1 @ es2) @ [CheckPercFrames False,
                     Print ''Error: perc_frames must be between 0 and 1.'']"
        have t: "trace (world_of (main env path perc_frames max_frames w)) = trace w @ ?es"
          using r1 r2' w2 by (simp add: main_invalid[OF False])
        have c3: "phases_within 3 3 [CheckPercFrames False,
                     Print ''Error: perc_frames must be between 0 and 1.'']"
          by (simp add: phases_within_def in_code_order_def map_filter_simps)
        have p13: "phases_within 1 3 ?es"
          using p12 c3 by (rule phases_within_append) simp_all
        have "k \<le> 3" if "e \<in> set ?es" "code_phase e = Some k" for e k
          using phases_within_phase[OF p13 that] by simp
        then have "\<not> (\<exists>e\<in>set ?es. \<exists>k. code_phase e = Some k \<and> 4 \<le> k)" by fastforce
        moreover have "phases_within 1 6 ?es" using p13 by (rule phases_within_mono) simp
        moreover have "TotalFrames n \<in> set ?es" using tf by simp
        ultimately show ?thesis using t by blast
      next
        case True
        let ?w3 = "emit (CheckPercFrames True) w2"
        obtain es4 where es4: "trace (world_of
           (bind (make_output_dir p ?w3) (\<lambda>output_dir w.
            bind (sample_frames n perc_frames max_frames w) (\<lambda>ixs w.
            bind (extract_frames env c output_dir ixs
                    (emit (Print (''Extracting frames to '' @ str_path output_dir @ ''...'')) w))
              (\<lambda>_ w.
            Return (emit (Print (''Frame extraction complete. '' @ str_int (int (length ixs))
                                 @ '' frames saved in '' @ str_path output_dir @ ''.'')) w))))
            :: unit step))
         = trace ?w3 @ es4" "phases_within 4 6 es4"
          using after_check_phases by blast
        let ?es = "((es1 @ es2) @ [CheckPercFrames True]) @ es4"
        have "trace (world_of (main env path perc_frames max_frames w)) = trace ?w3 @ es4"
          using es4(1) by (simp only: main_valid_prefix[OF r1 r2' True])
        then have t: "trace (world_of (main env path perc_frames max_frames w)) = trace w @ ?es"
          using w2 by simp
        have c3: "phases_within 3 3 [CheckPercFrames True]"
          by (simp add: phases_within_def in_code_order_def map_filter_simps)
        have p13: "phases_within 1 3 ((es1 @ es2) @ [CheckPercFrames True])"
          using p12 c3 by (rule phases_within_append) simp_all
        have p16: "phases_within 1 6 ?es"
          using p13 es4(2) by (rule phases_within_append) simp_all
        have "TotalFrames n \<in> set ?es" using tf by simp
        moreover have "CheckPercFrames True \<in> set ?es" by simp
        ultimately show ?thesis using t p16 by blast
      qed
    qed
  qed
qed

text \<open>
  Claim C5, as the code has it.  In every run the events occur in the order of the code:
  input resolution, opening the video with the total frame count, the check of the
  fraction, the output directory, stride and frame indices, the frames.  The check of the
  fraction comes after the total frame count has been computed, and neither the stride
  nor the frame indices are computed before the check has passed.
\<close>

theorem stages_in_code_order:
  "\<exists>es. trace (world_of (main env path perc_frames max_frames w)) = trace w @ es
        \<and> in_code_order es
        \<and> (\<forall>xs b ys. es = xs @ CheckPercFrames b # ys \<longrightarrow> (\<exists>n. TotalFrames n \<in> set xs))
        \<and> (\<forall>xs s ys. es = xs @ FrameStep s # ys \<longrightarrow> CheckPercFrames True \<in> set xs)
        \<and> (\<forall>xs ixs ys. es = xs @ FrameIndices ixs # ys \<longrightarrow> CheckPercFrames True \<in> set xs)"
proof -
  obtain es where es: "trace (world_of (main env path perc_frames max_frames w)) = trace w @ es"
    "phases_within 1 6 es"
    "(\<exists>e\<in>set es. \<exists>k. code_phase e = Some k \<and> 3 \<le> k) \<longrightarrow> (\<exists>n. TotalFrames n \<in> set es)"
    "(\<exists>e\<in>set es. \<exists>k. code_phase e = Some k \<and> 4 \<le> k) \<longrightarrow> CheckPercFrames True \<in> set es"
    using main_trace by blast
  have o: "in_code_order es" using es(2) by (rule phases_within_in_code_order)
  have a: "\<exists>n. TotalFrames n \<in> set xs" if s: "es = xs @ CheckPercFrames b # ys" for xs b ys
  proof -
    have "CheckPercFrames b \<in> set es" using s by simp
    moreover have "code_phase (CheckPercFrames b) = Some 3 \<and> (3::nat) \<le> 3" by simp
    ultimately obtain n where n: "TotalFrames n \<in> set es" using es(3) by blast
    have "TotalFrames n \<in> set xs"
    proof (rule in_code_order_before)
      show "in_code_order (xs @ CheckPercFrames b # ys)" using o s by simp
      show "code_phase (CheckPercFrames b) = Some 3" by simp
      show "TotalFrames n \<in> set (xs @ CheckPercFrames b # ys)" using n s by simp
      show "code_phase (TotalFrames n) = Some 2" by simp
      show "(2::nat) < 3" by simp
    qed
    then show ?thesis by blast
  qed
  have b: "CheckPercFrames True \<in> set xs"
    if s: "es = xs @ e # ys" and k: "code_phase e = Some 5" for xs e ys
  proof (rule in_code_order_before)
    show "in_code_order (xs @ e # ys)" using o s by simp
    show "code_phase e = Some 5" by (rule k)
    have "e \<in> set es" using s by simp
    moreover have "code_phase e = Some 5 \<and> (4::nat) \<le> 5" using k by simp
    ultimately have "CheckPercFrames True \<in> set es" using es(4) by blast
    then show "CheckPercFrames True \<in> set (xs @ e # ys)" using s by simp
    show "code_phase (CheckPercFrames True) = Some 3" by simp
    show "(3::nat) < 5" by simp
  qed
  have c: "CheckPercFrames True \<in> set xs" if "es = xs @ FrameStep s # ys" for xs s ys
    using that by (rule b) simp
  have d: "CheckPercFrames True \<in> set xs" if "es = xs @ FrameIndices ixs # ys" for xs ixs ys
    using that by (rule b) simp
  show ?thesis using es(1) o a c d by blast
qed

lemma demo_run_trace:
  "trace (world_of (main demo_env ''video.mp4'' (Fin 1) 3 demo_world)) =
     [CallExists (Path ''video.mp4''), CallVideoFileClip ''video.mp4'', TotalFrames 10,
      CheckPercFrames True, CallRmtree (Path ''images''), CallMkdir (Path ''images''),
      FrameStep 1, FrameIndices [0, 1, 2], Print ''Extracting frames to images...'',
      CallGetFrame (Fin 0), CallSave 7 (Path ''images/0.jpg''),
      CallGetFrame (Fin 1), CallSave 7 (Path ''images/1.jpg''),
      CallGetFrame (Fin 2), CallSave 7 (Path ''images/2.jpg''),
      Print ''Frame extraction complete. 3 frames saved in images.'']"
proof -
  let ?w1 = "emit (CallExists (Path ''video.mp4'')) demo_world"
  let ?w2 = "emit (TotalFrames 10) (emit (CallVideoFileClip ''video.mp4'') ?w1)"
  have v: "valid_perc_frames (Fin 1)" by simp
  have d1: "files ?w2 (output_dir_of (Path ''video.mp4'')) = Some Dir"
    and d2: "files ?w2 (parent (Path ''video.mp4'')) = Some Dir"
    by (simp_all add: output_dir_video demo_dirs)
  have ok: "\<forall>fnum\<in>set [0, 1, 2]. frame_ok demo_env demo_clip (output_dir_of (Path ''video.mp4'')) fnum"
    by (simp add: frame_ok_demo)
  show ?thesis
    unfolding main_completes[OF resolve_input_demo open_clip_demo v d1 d2 frame_step_one
        frame_indices_demo ok]
    by (simp add: output_dir_video demo_dirs frame_events_demo str_int_small demo_targets
        demo_world_def)
qed

theorem stages_in_code_order_witness:
  "trace (world_of (main demo_env ''video.mp4'' (Fin 1) 3 demo_world)) =
     [CallExists (Path ''video.mp4''), CallVideoFileClip ''video.mp4'', TotalFrames 10,
      CheckPercFrames True, CallRmtree (Path ''images''), CallMkdir (Path ''images''),
      FrameStep 1, FrameIndices [0, 1, 2], Print ''Extracting frames to images...'',
      CallGetFrame (Fin 0), CallSave 7 (Path ''images/0.jpg''),
      CallGetFrame (Fin 1), CallSave 7 (Path ''images/1.jpg''),
      CallGetFrame (Fin 2), CallSave 7 (Path ''images/2.jpg''),
      Print ''Frame extraction complete. 3 frames saved in images.'']
   \<and> in_code_order
       [CallExists (Path ''video.mp4''), CallVideoFileClip ''video.mp4'', TotalFrames 10,
        CheckPercFrames True, CallRmtree (Path ''images''), CallMkdir (Path ''images''),
        FrameStep 1, FrameIndices [0, 1, 2], Print ''Extracting frames to images...'',
        CallGetFrame (Fin 0), CallSave 7 (Path ''images/0.jpg''),
        CallGetFrame (Fin 1), CallSave 7 (Path ''images/1.jpg''),
        CallGetFrame (Fin 2), CallSave 7 (Path ''images/2.jpg''),
        Print ''Frame extraction complete. 3 frames saved in images.'']
   \<and> (\<exists>n. TotalFrames n \<in> set [CallExists (Path ''video.mp4''), CallVideoFileClip ''video.mp4'',
                                  TotalFrames 10])
   \<and> CheckPercFrames True
       \<in> set [CallExists (Path ''video.mp4''), CallVideoFileClip ''video.mp4'', TotalFrames 10,
              CheckPercFrames True, CallRmtree (Path ''images''), CallMkdir (Path ''images'')]"
proof -
  let ?run = "[CallExists (Path ''video.mp4''), CallVideoFileClip ''video.mp4'', TotalFrames 10,
      CheckPercFrames True, CallRmtree (Path ''images''), CallMkdir (Path ''images''),
      FrameStep 1, FrameIndices [0, 1, 2], Print ''Extracting frames to images...'',
      CallGetFrame (Fin 0), CallSave 7 (Path ''images/0.jpg''),
      CallGetFrame (Fin 1), CallSave 7 (Path ''images/1.jpg''),
      CallGetFrame (Fin 2), CallSave 7 (Path ''images/2.jpg''),
      Print ''Frame extraction complete. 3 frames saved in images.'']"
  obtain es where es:
    "trace (world_of (main demo_env ''video.mp4'' (Fin 1) 3 demo_world)) = trace demo_world @ es"
    "in_code_order es"
    "\<forall>xs b ys. es = xs @ CheckPercFrames b # ys \<longrightarrow> (\<exists>n. TotalFrames n \<in> set xs)"
    "\<forall>xs s ys. es = xs @ FrameStep s # ys \<longrightarrow> CheckPercFrames True \<in> set xs"
    using stages_in_code_order[of demo_env "''video.mp4''" "Fin 1" 3 demo_world] by blast
  have e: "es = ?run" using es(1) unfolding demo_run_trace by (simp add: demo_world_def)
  have o: "in_code_order ?run" using es(2) unfolding e .
  have "es = [CallExists (Path ''video.mp4''), CallVideoFileClip ''video.mp4'', TotalFrames 10]
               @ CheckPercFrames True
               # [CallRmtree (Path ''images''), CallMkdir (Path ''images''),
                  FrameStep 1, FrameIndices [0, 1, 2], Print ''Extracting frames to images...'',
                  CallGetFrame (Fin 0), CallSave 7 (Path ''images/0.jpg''),
                  CallGetFrame (Fin 1), CallSave 7 (Path ''images/1.jpg''),
                  CallGetFrame (Fin 2), CallSave 7 (Path ''images/2.jpg''),
                  Print ''Frame extraction complete. 3 frames saved in images.'']"
    unfolding e by simp
  then have a: "\<exists>n. TotalFrames n \<in> set [CallExists (Path ''video.mp4''),
                         CallVideoFileClip ''video.mp4'', TotalFrames 10]"
    using es(3) by blast
  have "es = [CallExists (Path ''video.mp4''), CallVideoFileClip ''video.mp4'', TotalFrames 10,
              CheckPercFrames True, CallRmtree (Path ''images''), CallMkdir (Path ''images'')]
               @ FrameStep 1
               # [FrameIndices [0, 1, 2], Print ''Extracting frames to images...'',
                  CallGetFrame (Fin 0), CallSave 7 (Path ''images/0.jpg''),
                  CallGetFrame (Fin 1), CallSave 7 (Path ''images/1.jpg''),
                  CallGetFrame (Fin 2), CallSave 7 (Path ''images/2.jpg''),
                  Print ''Frame extraction complete. 3 frames saved in images.'']"
    unfolding e by simp
  then have b: "CheckPercFrames True
       \<in> set [CallExists (Path ''video.mp4''), CallVideoFileClip ''video.mp4'', TotalFrames 10,
              CheckPercFrames True, CallRmtree (Path ''images''), CallMkdir (Path ''images'')]"
    using es(4) by blast
  show ?thesis using demo_run_trace o a b by (intro conjI)
qed

text \<open>
  Claim C5, as stated, fails on the run of the example: the total frame count, a value of
  the sampling plan, is computed before the fraction is checked, and the output directory
  is removed and created before stride and indices are computed.
\<close>

theorem stages_not_in_spec_order:
  "trace (world_of (main demo_env ''video.mp4'' (Fin 1) 3 demo_world)) =
     [CallExists (Path ''video.mp4''), CallVideoFileClip ''video.mp4'', TotalFrames 10,
      CheckPercFrames True, CallRmtree (Path ''images''), CallMkdir (Path ''images''),
      FrameStep 1, FrameIndices [0, 1, 2], Print ''Extracting frames to images...'',
      CallGetFrame (Fin 0), CallSave 7 (Path ''images/0.jpg''),
      CallGetFrame (Fin 1), CallSave 7 (Path ''images/1.jpg''),
      CallGetFrame (Fin 2), CallSave 7 (Path ''images/2.jpg''),
      Print ''Frame extraction complete. 3 frames saved in images.'']
   \<and> \<not> in_spec_order (trace (world_of (main demo_env ''video.mp4'' (Fin 1) 3 demo_world)))
   \<and> \<not> in_spec_order [TotalFrames 10, CheckPercFrames True]"
proof -
  have "\<not> in_spec_order (trace (world_of (main demo_env ''video.mp4'' (Fin 1) 3 demo_world)))"
    unfolding demo_run_trace by (simp add: in_spec_order_def map_filter_simps)
  moreover have "\<not> in_spec_order [TotalFrames 10, CheckPercFrames True]"
    by (simp add: in_spec_order_def map_filter_simps)
  ultimately show ?thesis using demo_run_trace by (intro conjI)
qed

end
